theory Spec2Isabelle
  imports Complex_Main
begin

section \<open>Data model of server.js\<close>

text \<open>
  A move as \<^verbatim>\<open>getMoveDetails\<close> builds it: \<^verbatim>\<open>{ name, power }\<close>. The power comes from the
  remote move record; \<^verbatim>\<open>calculateDamage\<close> tests \<^verbatim>\<open>typeof move.power !== 'number'\<close>, so the
  field is an optional integer: \<open>None\<close> stands for any value that is not a number
  (\<^verbatim>\<open>undefined\<close> when the record has no power field).
\<close>

record move =
  mv_name :: string
  mv_power :: "int option"

text \<open>
  \<^verbatim>\<open>formattedData\<close> of \<^verbatim>\<open>getPokemonDetails\<close> (the cached template). The four stats are read
  with \<^verbatim>\<open>getStat\<close>, which yields the remote \<^verbatim>\<open>base_stat\<close> or 0; the remote records carry
  integers.
\<close>

record template =
  pk_id :: int
  apiId :: string
  pk_name :: string
  hp :: int
  attack :: int
  defense :: int
  speed :: int
  spriteUrl :: "string option"
  moves :: "move list"
  abilityName :: string

text \<open>The battle instance of \<^verbatim>\<open>createPokemonInstance\<close>: the template and three more fields.\<close>

record pokemon = template +
  maxHp :: int
  currentHp :: int
  fainted :: bool

definition instantiate :: "template \<Rightarrow> pokemon" where
  "instantiate b = template.extend b (pokemon.fields (hp b) (hp b) False)"

definition createPokemonInstance :: "template option \<Rightarrow> pokemon option" where
  "createPokemonInstance baseData =
     (case baseData of None \<Rightarrow> None | Some b \<Rightarrow> Some (instantiate b))"

section \<open>calculateDamage\<close>

text \<open>
  The guard of line 386. Arguments that may be \<^verbatim>\<open>null\<close> or \<^verbatim>\<open>undefined\<close> are options;
  \<^verbatim>\<open>!attacker.attack\<close> and \<^verbatim>\<open>!defender.defense\<close> hold for the number 0.
\<close>

definition missingData :: "pokemon option \<Rightarrow> pokemon option \<Rightarrow> move option \<Rightarrow> bool" where
  "missingData attacker defender mv =
     (case attacker of None \<Rightarrow> True | Some a \<Rightarrow>
      (case defender of None \<Rightarrow> True | Some d \<Rightarrow>
       (case mv of None \<Rightarrow> True | Some m \<Rightarrow>
          attack a = 0 \<or> defense d = 0 \<or> mv_power m = None \<or> defense d \<le> 0)))"

text \<open>
  \<^verbatim>\<open>calculateDamage(attacker, defender, move)\<close>. The value of \<^verbatim>\<open>Math.random()\<close> is the
  argument \<open>rnd\<close>, a number with \<open>0 \<le> rnd < 1\<close>. The arithmetic of the source is on
  doubles; the model computes with real numbers, so rounding of the quotient and of the
  products is not represented.
\<close>

definition baseDamage :: "int \<Rightarrow> int \<Rightarrow> int \<Rightarrow> int" where
  "baseDamage atk dfn pw = \<lfloor>(real_of_int atk / real_of_int dfn) * real_of_int pw / 8 + 2\<rfloor>"

definition randomFactor :: "real \<Rightarrow> real" where
  "randomFactor rnd = rnd * 0.15 + 0.85"

definition calculateDamage ::
  "pokemon option \<Rightarrow> pokemon option \<Rightarrow> move option \<Rightarrow> real \<Rightarrow> int" where
  "calculateDamage attacker defender mv rnd =
     (if missingData attacker defender mv then 0
      else (case (attacker, defender, mv) of
        (Some a, Some d, Some m) \<Rightarrow>
          (case mv_power m of
             None \<Rightarrow> 0
           | Some pw \<Rightarrow>
               if pw = 0 then 0
               else max 1 \<lfloor>real_of_int (baseDamage (attack a) (defense d) pw) * randomFactor rnd\<rfloor>)
      | _ \<Rightarrow> 0))"

section \<open>Matches\<close>

text \<open>
  Socket identifiers and match identifiers are strings. \<^verbatim>\<open>game.players[id]\<close> is a slot:
  the object literal of \<^verbatim>\<open>findMatch\<close> (line 243).
\<close>

type_synonym sid = string
type_synonym gameId = string

record slot =
  sl_id :: sid
  sl_username :: string
  sl_team :: "pokemon list option"
  sl_activePokemonIndex :: nat
  sl_hasSelected :: bool
  sl_isPlayer1 :: bool

text \<open>
  \<^verbatim>\<open>battleState.player1\<close> and \<^verbatim>\<open>battleState.player2\<close> (line 274) are copies of the slots made
  once both teams are known to be arrays, with two more properties: \<^verbatim>\<open>activePokemon\<close> and,
  from the first faint on, \<^verbatim>\<open>mustSwitch\<close> (absent reads as false).

  References. \<^verbatim>\<open>activePokemon\<close> is a reference to an element of the side's own team array:
  it is \<^verbatim>\<open>team[0]\<close> at the start and \<^verbatim>\<open>team[targetIndex]\<close> after a switch, each time assigned
  together with \<^verbatim>\<open>activePokemonIndex\<close>. The three elements of a team are distinct objects
  (\<^verbatim>\<open>createPokemonInstance\<close> builds each from its own clone), so the reference is the index,
  and a write through \<^verbatim>\<open>activePokemon\<close> is a write to that element of the team. The \<^verbatim>\<open>team\<close>
  property of a side is the same array as the \<^verbatim>\<open>team\<close> of the slot it was copied from;
  \<open>syncSlotTeam\<close> below repeats every write to it in the slot.
\<close>

record side =
  sd_id :: sid
  sd_username :: string
  sd_team :: "pokemon list"
  sd_activePokemonIndex :: nat
  sd_hasSelected :: bool
  sd_isPlayer1 :: bool
  sd_mustSwitch :: bool

definition activePokemon :: "side \<Rightarrow> pokemon option" where
  "activePokemon sd =
     (if sd_activePokemonIndex sd < length (sd_team sd)
      then Some (sd_team sd ! sd_activePokemonIndex sd) else None)"

record game =
  g_id :: gameId
  players :: "sid \<rightharpoonup> slot"
  playerOrder :: "sid list"
  battleState :: "(side \<times> side) option"
  turn :: "sid option"
  log :: "string list"

text \<open>
  The server state. \<^verbatim>\<open>activeGames\<close> is an object keyed by match identifier; a handler
  that is suspended at an \<^verbatim>\<open>await\<close> keeps its reference to the match object after
  \<^verbatim>\<open>delete activeGames[gameId]\<close>. So the match objects live in \<open>gameObjects\<close>, addressed by
  their identifier (a fresh uuid per match), and \<open>activeGames\<close> lists the keys of the
  registry in insertion order, the order \<^verbatim>\<open>Object.keys\<close> enumerates.
  \<open>sockets\<close> is \<^verbatim>\<open>io.sockets.sockets\<close>, the connected sockets; \<open>rooms\<close> gives the members of
  each socket.io room.
\<close>

record server =
  waitingPlayer :: "sid option"
  activeGames :: "gameId list"
  gameObjects :: "gameId \<rightharpoonup> game"
  leaderboard :: "string \<rightharpoonup> nat"
  sockets :: "sid set"
  rooms :: "string \<Rightarrow> sid set"

definition activeGame :: "server \<Rightarrow> gameId \<Rightarrow> game option" where
  "activeGame s gid = (if gid \<in> set (activeGames s) then gameObjects s gid else None)"

definition storeGame :: "server \<Rightarrow> gameId \<Rightarrow> game \<Rightarrow> server" where
  "storeGame s gid g = s\<lparr>gameObjects := (gameObjects s)(gid \<mapsto> g)\<rparr>"

definition deleteGame :: "server \<Rightarrow> gameId \<Rightarrow> server" where
  "deleteGame s gid = s\<lparr>activeGames := removeAll gid (activeGames s)\<rparr>"

subsection \<open>Snapshots and events\<close>

text \<open>
  \<^verbatim>\<open>getSanitizedGameState\<close>. The sanitised objects are tuples of the properties in the order
  of the source: a team member is (id, name, currentHp, maxHp, fainted, spriteUrl,
  abilityName); the active creature has its moves before the ability; a player is
  (id, username, team, activePokemon, activePokemonIndex, mustSwitch); the state is
  (gameId, battleState, turn, log), where \<^verbatim>\<open>player1\<close> and \<^verbatim>\<open>player2\<close> are both \<^verbatim>\<open>null\<close> or
  both objects, hence one option of a pair.
\<close>

type_synonym sanePokemon = "int \<times> string \<times> int \<times> int \<times> bool \<times> string option \<times> string"
type_synonym saneActive =
  "int \<times> string \<times> int \<times> int \<times> bool \<times> string option \<times> move list \<times> string"
type_synonym sanePlayer =
  "sid \<times> string \<times> sanePokemon list \<times> saneActive option \<times> nat \<times> bool"
type_synonym snapshot =
  "gameId \<times> (sanePlayer \<times> sanePlayer) option \<times> sid option \<times> string list"

definition sanitizePokemon :: "pokemon \<Rightarrow> sanePokemon" where
  "sanitizePokemon p =
     (pk_id p, pk_name p, currentHp p, maxHp p, fainted p, spriteUrl p, abilityName p)"

definition sanitizeActive :: "pokemon \<Rightarrow> saneActive" where
  "sanitizeActive p =
     (pk_id p, pk_name p, currentHp p, maxHp p, fainted p, spriteUrl p, moves p, abilityName p)"

definition sanitizePlayer :: "side \<Rightarrow> sanePlayer" where
  "sanitizePlayer playerState =
     (sd_id playerState, sd_username playerState,
      map sanitizePokemon (sd_team playerState),
      map_option sanitizeActive (activePokemon playerState),
      sd_activePokemonIndex playerState, sd_mustSwitch playerState)"

definition stateToSend :: "game \<Rightarrow> snapshot" where
  "stateToSend g =
     (g_id g,
      map_option (\<lambda>bs. (sanitizePlayer (fst bs), sanitizePlayer (snd bs))) (battleState g),
      turn g, log g)"

definition getSanitizedGameState :: "server \<Rightarrow> gameId \<Rightarrow> snapshot option" where
  "getSanitizedGameState s gid =
     (case activeGame s gid of None \<Rightarrow> None | Some g \<Rightarrow> Some (stateToSend g))"

text \<open>
  Outbound events. \<^verbatim>\<open>socket.emit\<close> addresses one socket, \<^verbatim>\<open>io.to(room).emit\<close> a room;
  \<^verbatim>\<open>io.to(undefined)\<close> reaches nobody.
\<close>

datatype target = ToSocket sid | ToRoom string | ToNobody

datatype payload =
    GameError string
  | GameStateUpdate "snapshot option"
  | GameOver sid "snapshot option"
  | ForceSwitch string
  | BattleStart "snapshot option"
  | OpponentReady
  | WaitingForOpponentSelection
  | OpponentDisconnected string

type_synonym event = "target \<times> payload"

fun toRoom :: "string option \<Rightarrow> target" where
  "toRoom None = ToNobody"
| "toRoom (Some r) = ToRoom r"


text \<open>A number inside a template string: the decimal digits of an integer.\<close>

fun showNat :: "nat \<Rightarrow> string" where
  "showNat n =
     (if n < 10 then [''0123456789'' ! n]
      else showNat (n div 10) @ [''0123456789'' ! (n mod 10)])"

declare showNat.simps [simp del]

definition showInt :: "int \<Rightarrow> string" where
  "showInt i = (if i < 0 then CHR ''-'' # showNat (nat (- i)) else showNat (nat i))"

subsection \<open>The narration of a turn\<close>

text \<open>The template strings that the handlers push on \<^verbatim>\<open>game.log\<close> or send as a reason.\<close>

definition possessive :: "string \<Rightarrow> string \<Rightarrow> string" where
  "possessive username pokemonName = username @ (CHR 0x27 # ''s '') @ pokemonName"

definition usedMsg :: "side \<Rightarrow> pokemon \<Rightarrow> move \<Rightarrow> string" where
  "usedMsg playerState playerPokemon mv =
     possessive (sd_username playerState) (pk_name playerPokemon) @ '' used '' @ mv_name mv @ ''!''"

definition damagingMove :: "move \<Rightarrow> bool" where
  "damagingMove m = (case mv_power m of None \<Rightarrow> False | Some pw \<Rightarrow> pw > 0)"

definition hitMsg :: "side \<Rightarrow> pokemon \<Rightarrow> move \<Rightarrow> int \<Rightarrow> string" where
  "hitMsg opponentState opponentPokemon mv damage =
     (if damagingMove mv
      then possessive (sd_username opponentState) (pk_name opponentPokemon)
           @ '' took '' @ showInt damage @ '' damage.''
      else ''It had no effect...'')"

definition faintedMsg :: "side \<Rightarrow> pokemon \<Rightarrow> string" where
  "faintedMsg opponentState opponentPokemon =
     possessive (sd_username opponentState) (pk_name opponentPokemon) @ '' fainted!''"

definition switchedMsg :: "side \<Rightarrow> string \<Rightarrow> pokemon \<Rightarrow> string" where
  "switchedMsg playerState oldPokemonName playerPokemon =
     sd_username playerState @ '' switched from '' @ oldPokemonName @ '' to ''
     @ pk_name playerPokemon @ ''!''"

definition gameOverMsg :: "string \<Rightarrow> string \<Rightarrow> string" where
  "gameOverMsg winnerUsername loserUsername =
     ''Game Over! '' @ winnerUsername @ '' defeated '' @ loserUsername @ ''!''"

definition turnMsg :: "string \<Rightarrow> string" where
  "turnMsg username = ''It's '' @ username @ (CHR 0x27 # ''s turn!'')"

definition mustSwitchMsg :: "string \<Rightarrow> string" where
  "mustSwitchMsg username = username @ '' must switch Pok'' @ [CHR 0xE9] @ ''mon!''"

definition faintReason :: "pokemon option \<Rightarrow> string" where
  "faintReason opponentPokemon =
     (case opponentPokemon of None \<Rightarrow> [] | Some q \<Rightarrow> pk_name q) @ '' fainted!''"

subsection \<open>performAction\<close>

datatype action = Attack string | Switch int | OtherAction

fun isSwitch :: "action \<Rightarrow> bool" where
  "isSwitch (Switch i) = True"
| "isSwitch a = False"

text \<open>\<^verbatim>\<open>game.playerOrder.find(id => id !== currentPlayerId)\<close>\<close>

definition findOpponent :: "game \<Rightarrow> sid \<Rightarrow> sid option" where
  "findOpponent g currentPlayerId = List.find (\<lambda>i. i \<noteq> currentPlayerId) (playerOrder g)"

text \<open>
  \<^verbatim>\<open>playerState\<close> and \<^verbatim>\<open>opponentState\<close> are references to the two sides (lines 290-291);
  \<open>putSides\<close> writes both back to where they were read.
\<close>

definition pickSides :: "side \<times> side \<Rightarrow> sid \<Rightarrow> side \<times> side" where
  "pickSides bs currentPlayerId =
     (if sd_id (fst bs) = currentPlayerId then (fst bs, snd bs) else (snd bs, fst bs))"

definition putSides :: "game \<Rightarrow> sid \<Rightarrow> side \<Rightarrow> side \<Rightarrow> game" where
  "putSides g currentPlayerId playerState opponentState =
     (case battleState g of
        None \<Rightarrow> g
      | Some bs \<Rightarrow> g\<lparr>battleState :=
          Some (if sd_id (fst bs) = currentPlayerId then (playerState, opponentState)
                else (opponentState, playerState))\<rparr>)"

definition syncSlotTeam :: "game \<Rightarrow> sid \<Rightarrow> pokemon list \<Rightarrow> game" where
  "syncSlotTeam g k team =
     (case players g k of
        None \<Rightarrow> g
      | Some sl \<Rightarrow> g\<lparr>players := (players g)(k \<mapsto> sl\<lparr>sl_team := Some team\<rparr>)\<rparr>)"

text \<open>
  What the action branch of the handler leaves: it returned early (with the events it had
  emitted), or it set \<^verbatim>\<open>gameOver\<close>, or it set \<^verbatim>\<open>turnEnded\<close>. The match object is mutated in
  place, so each outcome carries the match as the branch left it.
\<close>

datatype outcome = Returned game "event list" | GameIsOver game | TurnEnded game

definition attackAction ::
  "game \<Rightarrow> sid \<Rightarrow> sid option \<Rightarrow> side \<Rightarrow> side \<Rightarrow> string \<Rightarrow> real \<Rightarrow> outcome" where
  "attackAction g currentPlayerId opponentId playerState opponentState moveName rnd =
     (case (activePokemon playerState, activePokemon opponentState) of
        (Some playerPokemon, Some opponentPokemon) \<Rightarrow>
          (case List.find (\<lambda>m. mv_name m = moveName) (moves playerPokemon) of
             None \<Rightarrow> Returned g []
           | Some mv \<Rightarrow>
              if fainted playerPokemon then Returned g []
              else
                let log1 = log g @ [usedMsg playerState playerPokemon mv];
                    damage = calculateDamage (Some playerPokemon) (Some opponentPokemon) (Some mv) rnd;
                    log2 = log1 @ [hitMsg opponentState opponentPokemon mv damage];
                    newHp = currentHp opponentPokemon - damage;
                    i = sd_activePokemonIndex opponentState
                in if newHp \<le> 0 then
                     let team' = (sd_team opponentState)
                                   [i := opponentPokemon\<lparr>currentHp := 0, fainted := True\<rparr>];
                         log3 = log2 @ [faintedMsg opponentState opponentPokemon];
                         g1 = syncSlotTeam (g\<lparr>log := log3\<rparr>) (sd_id opponentState) team';
                         availableOpponentPokemon = filter (\<lambda>p. \<not> fainted p) team'
                     in if length availableOpponentPokemon = 0
                        then GameIsOver (putSides g1 currentPlayerId playerState
                                          (opponentState\<lparr>sd_team := team'\<rparr>))
                        else TurnEnded (putSides (g1\<lparr>turn := opponentId\<rparr>) currentPlayerId playerState
                                          (opponentState\<lparr>sd_team := team', sd_mustSwitch := True\<rparr>))
                   else
                     let team' = (sd_team opponentState)[i := opponentPokemon\<lparr>currentHp := newHp\<rparr>];
                         g1 = syncSlotTeam (g\<lparr>log := log2\<rparr>) (sd_id opponentState) team'
                     in TurnEnded (putSides g1 currentPlayerId playerState
                                     (opponentState\<lparr>sd_team := team'\<rparr>)))
      | _ \<Rightarrow> Returned g [])"

definition switchAction :: "game \<Rightarrow> sid \<Rightarrow> side \<Rightarrow> side \<Rightarrow> int \<Rightarrow> outcome" where
  "switchAction g currentPlayerId playerState opponentState targetIndex =
     (case activePokemon playerState of
        None \<Rightarrow> Returned g []
      | Some playerPokemon \<Rightarrow>
          let team = sd_team playerState in
          if targetIndex < 0 \<or> targetIndex \<ge> int (length team)
             \<or> fainted (team ! nat targetIndex)
             \<or> pk_id (team ! nat targetIndex) = pk_id playerPokemon
          then Returned g []
          else
            let oldPokemonName = pk_name playerPokemon;
                newPokemon = team ! nat targetIndex;
                log1 = log g @ [switchedMsg playerState oldPokemonName newPokemon]
            in TurnEnded (putSides (g\<lparr>log := log1\<rparr>) currentPlayerId
                 (playerState\<lparr>sd_activePokemonIndex := nat targetIndex, sd_mustSwitch := False\<rparr>)
                 opponentState))"

text \<open>The \<^verbatim>\<open>catch\<close> block of the handler (lines 349-353).\<close>

definition catchStep :: "server \<Rightarrow> sid \<Rightarrow> gameId \<Rightarrow> server \<times> event list" where
  "catchStep s sock gid =
     (s, [(ToSocket sock, GameError ''Internal server error processing action.''),
          (ToRoom gid, GameStateUpdate (getSanitizedGameState s gid))])"

text \<open>\<^verbatim>\<open>io.sockets.sockets.get(id)\<close> and, when the socket is connected, \<^verbatim>\<open>leave(gameId)\<close>.\<close>

definition leaveRoom :: "server \<Rightarrow> sid option \<Rightarrow> string \<Rightarrow> server" where
  "leaveRoom s p r =
     (case p of
        None \<Rightarrow> s
      | Some x \<Rightarrow> if x \<in> sockets s then s\<lparr>rooms := (rooms s)(r := rooms s r - {x})\<rparr> else s)"

definition nthOpt :: "'a list \<Rightarrow> nat \<Rightarrow> 'a option" where
  "nthOpt xs i = (if i < length xs then Some (xs ! i) else None)"

text \<open>
  Lines 330-338. Reading \<^verbatim>\<open>.username\<close> of a missing slot throws, which the \<^verbatim>\<open>catch\<close> block
  takes; the mutations of the action branch stay.
\<close>

definition gameOverStep :: "server \<Rightarrow> sid \<Rightarrow> gameId \<Rightarrow> sid option \<Rightarrow> game \<Rightarrow> server \<times> event list" where
  "gameOverStep s winnerId gid opponentId g =
     (case (players g winnerId, Option.bind opponentId (players g)) of
        (Some w, Some l) \<Rightarrow>
          let winnerUsername = sl_username w;
              loserUsername = sl_username l;
              g1 = g\<lparr>log := log g @ [gameOverMsg winnerUsername loserUsername]\<rparr>;
              s1 = (storeGame s gid g1)\<lparr>leaderboard := (leaderboard s)(winnerUsername \<mapsto>
                      (case leaderboard s winnerUsername of None \<Rightarrow> 0 | Some n \<Rightarrow> n) + 1)\<rparr>;
              snap = getSanitizedGameState s1 gid;
              evs = [(ToRoom gid, GameStateUpdate snap), (ToRoom gid, GameOver winnerId snap)];
              s2 = deleteGame s1 gid;
              s3 = leaveRoom s2 (nthOpt (playerOrder g) 0) gid;
              s4 = leaveRoom s3 (nthOpt (playerOrder g) 1) gid
          in (s4, evs)
      | _ \<Rightarrow> catchStep (storeGame s gid g) winnerId gid)"

text \<open>Lines 339-348.\<close>

definition turnEndStep :: "server \<Rightarrow> sid \<Rightarrow> gameId \<Rightarrow> sid option \<Rightarrow> game \<Rightarrow> server \<times> event list" where
  "turnEndStep s currentPlayerId gid opponentId g =
     (case battleState g of
        None \<Rightarrow> (storeGame s gid g, [])
      | Some bs \<Rightarrow>
          let opponentState = snd (pickSides bs currentPlayerId) in
          if \<not> sd_mustSwitch opponentState then
            let g1 = g\<lparr>turn := opponentId, log := log g @ [turnMsg (sd_username opponentState)]\<rparr>;
                s1 = storeGame s gid g1
            in (s1, [(ToRoom gid, GameStateUpdate (getSanitizedGameState s1 gid))])
          else
            let g1 = g\<lparr>log := log g @ [mustSwitchMsg (sd_username opponentState)]\<rparr>;
                s1 = storeGame s gid g1;
                reason = faintReason (activePokemon opponentState)
            in (s1, [(ToRoom gid, GameStateUpdate (getSanitizedGameState s1 gid)),
                     (toRoom opponentId, ForceSwitch reason)]))"

definition finishAction ::
  "server \<Rightarrow> sid \<Rightarrow> gameId \<Rightarrow> sid option \<Rightarrow> outcome \<Rightarrow> server \<times> event list" where
  "finishAction s currentPlayerId gid opponentId out =
     (case out of
        Returned g evs \<Rightarrow> (storeGame s gid g, evs)
      | GameIsOver g \<Rightarrow> gameOverStep s currentPlayerId gid opponentId g
      | TurnEnded g \<Rightarrow> turnEndStep s currentPlayerId gid opponentId g)"

text \<open>
  The \<^verbatim>\<open>performAction\<close> handler of the socket \<open>sock\<close>, with the payload
  \<^verbatim>\<open>{ gameId, action }\<close> and the value \<open>rnd\<close> that \<^verbatim>\<open>Math.random()\<close> returns if it is called.
  The result is the new server state and the events emitted, in order. The returns
  before line 296 change nothing; line 296 clears the log, so every later return
  leaves a cleared log behind.
\<close>

definition performAction ::
  "server \<Rightarrow> sid \<Rightarrow> gameId \<Rightarrow> action \<Rightarrow> real \<Rightarrow> server \<times> event list" where
  "performAction s sock gid act rnd =
     (case activeGame s gid of
        None \<Rightarrow> (s, [])
      | Some g \<Rightarrow>
         (case battleState g of
            None \<Rightarrow> (s, [])
          | Some bs \<Rightarrow>
              if turn g \<noteq> Some sock then (s, [])
              else
                let currentPlayerId = sock;
                    opponentId = findOpponent g currentPlayerId;
                    playerState = fst (pickSides bs currentPlayerId);
                    opponentState = snd (pickSides bs currentPlayerId)
                in if activePokemon playerState = None \<or> activePokemon opponentState = None
                   then (s, [])
                   else if sd_mustSwitch playerState \<and> \<not> isSwitch act then (s, [])
                   else
                     let g0 = g\<lparr>log := []\<rparr> in
                     (case act of
                        Attack moveName \<Rightarrow>
                          finishAction s currentPlayerId gid opponentId
                            (attackAction g0 currentPlayerId opponentId playerState opponentState
                               moveName rnd)
                      | Switch targetIndex \<Rightarrow>
                          finishAction s currentPlayerId gid opponentId
                            (switchAction g0 currentPlayerId playerState opponentState targetIndex)
                      | OtherAction \<Rightarrow>
                          (storeGame s gid g0,
                           [(ToSocket sock, GameError ''Unknown action type.'')]))))"

subsection \<open>selectTeam\<close>

text \<open>
  A value a client can send as \<^verbatim>\<open>teamIds\<close>. \<^verbatim>\<open>typeof id === 'number'\<close> holds for \<open>JNumber\<close>
  only, \<^verbatim>\<open>Array.isArray\<close> for \<open>JArray\<close> only.
\<close>

datatype jsval =
    JNumber real
  | JString string
  | JBool bool
  | JNull
  | JUndefined
  | JObject
  | JArray "jsval list"



definition sideOfSlot :: "slot \<Rightarrow> pokemon list \<Rightarrow> side" where
  "sideOfSlot sl team =
     \<lparr>sd_id = sl_id sl, sd_username = sl_username sl, sd_team = team,
      sd_activePokemonIndex = sl_activePokemonIndex sl, sd_hasSelected = sl_hasSelected sl,
      sd_isPlayer1 = sl_isPlayer1 sl, sd_mustSwitch = False\<rparr>"




subsection \<open>disconnect\<close>

text \<open>
  \<^verbatim>\<open>Object.keys(activeGames).find(id => activeGames[id]?.players[socket.id])\<close>: the first
  registered match, in insertion order, that has the socket among its players.
\<close>

definition findGameOf :: "server \<Rightarrow> sid \<Rightarrow> gameId option" where
  "findGameOf s sock =
     List.find (\<lambda>gid. case activeGame s gid of None \<Rightarrow> False | Some g \<Rightarrow> players g sock \<noteq> None)
       (activeGames s)"


text \<open>
  The \<^verbatim>\<open>disconnect\<close> handler of the socket \<open>sock\<close>. socket.io has taken the socket out of
  \<^verbatim>\<open>io.sockets.sockets\<close> and out of its rooms before it runs the handler; \<open>dropSocket\<close> is
  that step.
\<close>

definition dropSocket :: "server \<Rightarrow> sid \<Rightarrow> server" where
  "dropSocket s sock = s\<lparr>sockets := sockets s - {sock}, rooms := (\<lambda>r. rooms s r - {sock})\<rparr>"



section \<open>Well-formed matches\<close>

text \<open>
  What \<^verbatim>\<open>findMatch\<close> and \<^verbatim>\<open>selectTeam\<close> establish for a match in battle and every handler
  keeps: the two sides carry the two distinct identifiers of \<^verbatim>\<open>playerOrder\<close>, in that order,
  both have a slot, both have an active creature, and one of the two holds the turn.
\<close>

definition wellFormed :: "game \<Rightarrow> bool" where
  "wellFormed g =
     (case battleState g of
        None \<Rightarrow> False
      | Some bs \<Rightarrow>
          playerOrder g = [sd_id (fst bs), sd_id (snd bs)]
          \<and> sd_id (fst bs) \<noteq> sd_id (snd bs)
          \<and> players g (sd_id (fst bs)) \<noteq> None
          \<and> players g (sd_id (snd bs)) \<noteq> None
          \<and> activePokemon (fst bs) \<noteq> None
          \<and> activePokemon (snd bs) \<noteq> None
          \<and> (turn g = Some (sd_id (fst bs)) \<or> turn g = Some (sd_id (snd bs))))"

text \<open>
  A side is flagged \<^verbatim>\<open>mustSwitch\<close> only while it holds the turn: the flag is set together
  with \<^verbatim>\<open>game.turn = opponentId\<close> (line 316) and cleared by the switch that passes the turn.
\<close>

definition flagsFollowTurn :: "game \<Rightarrow> bool" where
  "flagsFollowTurn g =
     (case battleState g of
        None \<Rightarrow> True
      | Some bs \<Rightarrow>
          (sd_mustSwitch (fst bs) \<longrightarrow> turn g = Some (sd_id (fst bs)))
          \<and> (sd_mustSwitch (snd bs) \<longrightarrow> turn g = Some (sd_id (snd bs))))"

text \<open>The side of a player in a match, and the other side.\<close>

definition sideOf :: "game \<Rightarrow> sid \<Rightarrow> side option" where
  "sideOf g p = map_option (\<lambda>bs. fst (pickSides bs p)) (battleState g)"

definition otherSideOf :: "game \<Rightarrow> sid \<Rightarrow> side option" where
  "otherSideOf g p = map_option (\<lambda>bs. snd (pickSides bs p)) (battleState g)"

section \<open>Example states\<close>

definition thunderShock :: move where
  "thunderShock = \<lparr>mv_name = ''Thunder Shock'', mv_power = Some 40\<rparr>"

definition growl :: move where
  "growl = \<lparr>mv_name = ''Growl'', mv_power = Some 0\<rparr>"

definition pikachu :: template where
  "pikachu = \<lparr>pk_id = 25, apiId = ''25'', pk_name = ''Pikachu'', hp = 35, attack = 55,
     defense = 40, speed = 90, spriteUrl = None, moves = [thunderShock, growl],
     abilityName = ''Static''\<rparr>"

definition charmander :: template where
  "charmander = \<lparr>pk_id = 4, apiId = ''4'', pk_name = ''Charmander'', hp = 39, attack = 52,
     defense = 43, speed = 65, spriteUrl = None, moves = [growl],
     abilityName = ''Blaze''\<rparr>"

definition weak :: "pokemon \<Rightarrow> pokemon" where
  "weak p = p\<lparr>currentHp := 1\<rparr>"

definition out :: "pokemon \<Rightarrow> pokemon" where
  "out p = p\<lparr>currentHp := 0, fainted := True\<rparr>"

definition exSlot :: "sid \<Rightarrow> string \<Rightarrow> bool \<Rightarrow> pokemon list \<Rightarrow> slot" where
  "exSlot i u first team =
     \<lparr>sl_id = i, sl_username = u, sl_team = Some team, sl_activePokemonIndex = 0,
      sl_hasSelected = True, sl_isPlayer1 = first\<rparr>"

text \<open>
  A match in battle between the sockets \<open>''A''\<close> and \<open>''B''\<close> with the given teams, both
  on their first creature, \<open>''A''\<close> to move.
\<close>

definition exGame :: "pokemon list \<Rightarrow> pokemon list \<Rightarrow> game" where
  "exGame teamA teamB =
     \<lparr>g_id = ''g1'',
      players = [''A'' \<mapsto> exSlot ''A'' ''Ann'' True teamA, ''B'' \<mapsto> exSlot ''B'' ''Bob'' False teamB],
      playerOrder = [''A'', ''B''],
      battleState = Some (sideOfSlot (exSlot ''A'' ''Ann'' True teamA) teamA,
                          sideOfSlot (exSlot ''B'' ''Bob'' False teamB) teamB),
      turn = Some ''A'',
      log = [''Battle Start!'']\<rparr>"

definition exServer :: "game \<Rightarrow> server" where
  "exServer g =
     \<lparr>waitingPlayer = None, activeGames = [''g1''], gameObjects = [''g1'' \<mapsto> g],
      leaderboard = Map.empty, sockets = {''A'', ''B''},
      rooms = (\<lambda>r. if r = ''g1'' then {''A'', ''B''} else if r = ''A'' then {''A''}
                    else if r = ''B'' then {''B''} else {})\<rparr>"

text \<open>Teams for the examples: two creatures of one species first; one creature left standing; none left behind the active one.\<close>

definition exTeamA :: "pokemon list" where
  "exTeamA = [instantiate pikachu, instantiate pikachu, instantiate charmander]"

definition exTeamB :: "pokemon list" where
  "exTeamB = [weak (instantiate charmander), out (instantiate pikachu), instantiate pikachu]"






section \<open>The resolver: getMoveDetails and getPokemonDetails\<close>

text \<open>
  This section follows one resolution from the remote records to the value it yields.
  The remote source is a pair of functions from the requested location to the record
  returned, \<open>None\<close> when \<^verbatim>\<open>axios.get\<close> rejects. The moves of one creature are
  requested together and awaited with \<^verbatim>\<open>Promise.all\<close>; here they are resolved one after the
  other in the order of the array, which gives the same values. The coalescing of
  simultaneous requests and the objects handed out are the subject of the next sections.
\<close>

subsection \<open>Strings\<close>

text \<open>
  \<^verbatim>\<open>toUpperCase\<close> and \<^verbatim>\<open>toLowerCase\<close> on the letters a-z and A-Z; the names of the remote
  source are lower-case ASCII words joined by hyphens.
\<close>

definition toUpperChar :: "char \<Rightarrow> char" where
  "toUpperChar c =
     (if 97 \<le> (of_char c :: nat) \<and> (of_char c :: nat) \<le> 122
      then char_of ((of_char c :: nat) - 32) else c)"

definition toLowerChar :: "char \<Rightarrow> char" where
  "toLowerChar c =
     (if 65 \<le> (of_char c :: nat) \<and> (of_char c :: nat) \<le> 90
      then char_of ((of_char c :: nat) + 32) else c)"

text \<open>\<^verbatim>\<open>s.split('-')\<close>: at least one piece, empty pieces kept.\<close>

fun splitOn :: "char \<Rightarrow> string \<Rightarrow> string list" where
  "splitOn c [] = [[]]"
| "splitOn c (x # xs) =
     (if x = c then [] # splitOn c xs
      else (case splitOn c xs of
              [] \<Rightarrow> [[x]]
            | w # ws \<Rightarrow> (x # w) # ws))"

text \<open>\<^verbatim>\<open>pieces.join(' ')\<close>\<close>

fun joinWith :: "string \<Rightarrow> string list \<Rightarrow> string" where
  "joinWith sep [] = []"
| "joinWith sep [w] = w"
| "joinWith sep (w # ws) = w @ sep @ joinWith sep ws"

text \<open>\<^verbatim>\<open>word.charAt(0).toUpperCase() + word.slice(1)\<close>: the empty word stays empty.\<close>

fun capitalize :: "string \<Rightarrow> string" where
  "capitalize [] = []"
| "capitalize (c # cs) = toUpperChar c # cs"

text \<open>Line 55, the display name of a move.\<close>

definition formatMoveName :: "string \<Rightarrow> string" where
  "formatMoveName moveName = joinWith '' '' (map capitalize (splitOn CHR ''-'' moveName))"

text \<open>
  Line 133, the display name of an ability: \<^verbatim>\<open>w[0].toUpperCase()\<close> throws a TypeError on an
  empty piece, where \<^verbatim>\<open>w[0]\<close> is \<^verbatim>\<open>undefined\<close>.
\<close>

fun capitalizeStrict :: "string \<Rightarrow> string option" where
  "capitalizeStrict [] = None"
| "capitalizeStrict (c # cs) = Some (toUpperChar c # cs)"

definition formatAbilityName :: "string \<Rightarrow> string option" where
  "formatAbilityName n =
     map_option (joinWith '' '') (those (map capitalizeStrict (splitOn CHR ''-'' n)))"

subsection \<open>Remote records\<close>

text \<open>
  The \<^verbatim>\<open>power\<close> of a remote move record: a number, \<^verbatim>\<open>null\<close> for a status move, or anything
  else (the property missing).
\<close>

datatype remotePower = PowerNumber int | PowerNull | PowerOther

text \<open>
  An entry of \<^verbatim>\<open>data.moves\<close>: \<^verbatim>\<open>move.name\<close>, \<^verbatim>\<open>move.url\<close> and, for each entry of
  \<^verbatim>\<open>version_group_details\<close>, the names of its version group and of its learn method.
\<close>

record moveInfo =
  mi_name :: string
  mi_url :: string
  mi_details :: "(string \<times> string) list"

text \<open>
  The species record: \<^verbatim>\<open>data.stats\<close> as pairs of \<^verbatim>\<open>stat.name\<close> and \<^verbatim>\<open>base_stat\<close>,
  \<^verbatim>\<open>data.abilities\<close> (possibly absent) as pairs of \<^verbatim>\<open>ability.name\<close> and \<^verbatim>\<open>is_hidden\<close>,
  \<^verbatim>\<open>data.sprites?.front_default\<close>.
\<close>

record species =
  sp_id :: int
  sp_name :: string
  sp_stats :: "(string \<times> int) list"
  sp_moves :: "moveInfo list"
  sp_abilities :: "(string \<times> bool) list option"
  sp_sprite :: "string option"

record remote =
  pokemonEndpoint :: "string \<Rightarrow> species option"
  moveEndpoint :: "string \<Rightarrow> remotePower option"

record caches =
  pokemonDataCache :: "string \<rightharpoonup> template"
  moveDataCache :: "string \<rightharpoonup> move"

definition TARGET_GAME_VERSION_GROUP :: string where
  "TARGET_GAME_VERSION_GROUP = ''scarlet-violet''"

definition MAX_MOVES_PER_POKEMON :: nat where
  "MAX_MOVES_PER_POKEMON = 4"

subsection \<open>getMoveDetails\<close>

text \<open>
  The value \<^verbatim>\<open>getMoveDetails(moveInfo)\<close> resolves to and the move cache afterwards: the
  cached entry; else the record built from the remote power, which is cached; else, the
  request having failed, the default of line 64, which is not cached.
\<close>

definition getMoveDetails :: "remote \<Rightarrow> (string \<rightharpoonup> move) \<Rightarrow> moveInfo \<Rightarrow> move \<times> (string \<rightharpoonup> move)" where
  "getMoveDetails rem mc moveInfo =
     (let moveName = mi_name moveInfo; moveUrl = mi_url moveInfo in
      case mc moveName of
        Some cached \<Rightarrow> (cached, mc)
      | None \<Rightarrow>
         (case moveEndpoint rem moveUrl of
            Some pw \<Rightarrow>
              let moveData = \<lparr>mv_name = formatMoveName moveName,
                               mv_power = (case pw of PowerNull \<Rightarrow> Some 0
                                           | PowerNumber n \<Rightarrow> Some n
                                           | PowerOther \<Rightarrow> None)\<rparr>
              in (moveData, mc(moveName \<mapsto> moveData))
          | None \<Rightarrow> (\<lparr>mv_name = moveName, mv_power = Some 0\<rparr>, mc)))"

fun getAllMoveDetails ::
  "remote \<Rightarrow> (string \<rightharpoonup> move) \<Rightarrow> moveInfo list \<Rightarrow> move list \<times> (string \<rightharpoonup> move)" where
  "getAllMoveDetails rem mc [] = ([], mc)"
| "getAllMoveDetails rem mc (mi # mis) =
     (let (m, mc1) = getMoveDetails rem mc mi;
          (ms, mc2) = getAllMoveDetails rem mc1 mis
      in (m # ms, mc2))"

subsection \<open>getPokemonDetails\<close>

text \<open>\<^verbatim>\<open>data.stats.find(s => s.stat.name === statName)?.base_stat || 0\<close>\<close>

definition getStat :: "species \<Rightarrow> string \<Rightarrow> int" where
  "getStat data statName =
     (case List.find (\<lambda>s. fst s = statName) (sp_stats data) of None \<Rightarrow> 0 | Some s \<Rightarrow> snd s)"

definition learnedByLevelUp :: "moveInfo \<Rightarrow> bool" where
  "learnedByLevelUp moveInfo =
     (List.find (\<lambda>vgd. fst vgd = TARGET_GAME_VERSION_GROUP \<and> snd vgd = ''level-up'')
        (mi_details moveInfo) \<noteq> None)"

text \<open>The loop of lines 106-114, from the moves not yet visited and the selection so far.\<close>

fun selectLevelUp :: "moveInfo list \<Rightarrow> moveInfo list \<Rightarrow> moveInfo list" where
  "selectLevelUp [] selected = selected"
| "selectLevelUp (moveInfo # rest) selected =
     (let selected1 = (if learnedByLevelUp moveInfo then selected @ [moveInfo] else selected)
      in if length selected1 \<ge> MAX_MOVES_PER_POKEMON then selected1
         else selectLevelUp rest selected1)"

text \<open>The loop of lines 119-124; \<open>existingNames\<close> is computed once, before the loop.\<close>

fun fillMoves :: "string list \<Rightarrow> moveInfo list \<Rightarrow> moveInfo list \<Rightarrow> moveInfo list" where
  "fillMoves existingNames [] selected = selected"
| "fillMoves existingNames (moveInfo # rest) selected =
     (if length selected \<ge> MAX_MOVES_PER_POKEMON then selected
      else fillMoves existingNames rest
             (if mi_name moveInfo \<notin> set existingNames then selected @ [moveInfo] else selected))"

definition selectMoves :: "species \<Rightarrow> moveInfo list" where
  "selectMoves data =
     (let selected = selectLevelUp (sp_moves data) []
      in if length selected < MAX_MOVES_PER_POKEMON
         then fillMoves (map mi_name selected) (sp_moves data) selected
         else selected)"

text \<open>Lines 132-133. \<open>None\<close>: the formatting threw.\<close>

definition selectAbility :: "species \<Rightarrow> string option" where
  "selectAbility data =
     (case Option.bind (sp_abilities data) (List.find (\<lambda>a. \<not> snd a)) of
        None \<Rightarrow> Some ''Unknown''
      | Some firstAbilityInfo \<Rightarrow> formatAbilityName (fst firstAbilityInfo))"

text \<open>
  The body of the producer (lines 97-150) on a species record: the formatted data and
  the move cache afterwards, or \<open>None\<close> for the exception that the \<^verbatim>\<open>catch\<close> block rethrows.
  The moves are resolved before the ability is formatted, so the move cache keeps what
  they stored even then.
\<close>

definition formatPokemon ::
  "remote \<Rightarrow> (string \<rightharpoonup> move) \<Rightarrow> string \<Rightarrow> species \<Rightarrow> template option \<times> (string \<rightharpoonup> move)" where
  "formatPokemon rem mc identifier data =
     (let (formattedMoves, mc1) = getAllMoveDetails rem mc (selectMoves data)
      in case selectAbility data of
           None \<Rightarrow> (None, mc1)
         | Some ability \<Rightarrow>
             (Some \<lparr>pk_id = sp_id data, apiId = identifier, pk_name = capitalize (sp_name data),
                    hp = getStat data ''hp'', attack = getStat data ''attack'',
                    defense = getStat data ''defense'', speed = getStat data ''speed'',
                    spriteUrl = sp_sprite data, moves = formattedMoves,
                    abilityName = ability\<rparr>, mc1))"

text \<open>
  \<^verbatim>\<open>getPokemonDetails(idOrName)\<close> on the string \<^verbatim>\<open>String(idOrName)\<close>: the value it resolves to
  (\<open>None\<close> for \<^verbatim>\<open>null\<close>) and the caches afterwards.
\<close>

definition getPokemonDetails :: "remote \<Rightarrow> caches \<Rightarrow> string \<Rightarrow> template option \<times> caches" where
  "getPokemonDetails rem c idString =
     (let identifier = map toLowerChar idString in
      case pokemonDataCache c identifier of
        Some cached \<Rightarrow> (Some cached, c)
      | None \<Rightarrow>
         (case pokemonEndpoint rem identifier of
            None \<Rightarrow> (None, c)
          | Some data \<Rightarrow>
             (case formatPokemon rem (moveDataCache c) identifier data of
                (None, mc1) \<Rightarrow> (None, c\<lparr>moveDataCache := mc1\<rparr>)
              | (Some formattedData, mc1) \<Rightarrow>
                  (Some formattedData,
                   c\<lparr>moveDataCache := mc1,
                     pokemonDataCache := (pokemonDataCache c)(identifier \<mapsto> formattedData)\<rparr>))))"

text \<open>A species record with four moves of which none is learned in the target group.\<close>

definition exMoveInfo :: "string \<Rightarrow> moveInfo" where
  "exMoveInfo n = \<lparr>mi_name = n, mi_url = ''https://pokeapi.co/api/v2/move/'' @ n,
                   mi_details = [(''red-blue'', ''level-up'')]\<rparr>"

definition exSpecies :: species where
  "exSpecies = \<lparr>sp_id = 1, sp_name = ''bulbasaur'',
     sp_stats = [(''hp'', 45), (''attack'', 49), (''defense'', 49), (''speed'', 45)],
     sp_moves = [exMoveInfo ''tackle'', exMoveInfo ''vine-whip''],
     sp_abilities = Some [(''overgrow'', False), (''chlorophyll'', True)],
     sp_sprite = None\<rparr>"

text \<open>A remote source whose move endpoint fails for tackle and answers 45 otherwise.\<close>

definition exRemote :: remote where
  "exRemote = \<lparr>pokemonEndpoint = (\<lambda>i. if i = ''1'' then Some exSpecies else None),
     moveEndpoint = (\<lambda>u. if u = ''https://pokeapi.co/api/v2/move/tackle'' then None
                          else Some (PowerNumber 45))\<rparr>"

definition noCaches :: caches where
  "noCaches = \<lparr>pokemonDataCache = Map.empty, moveDataCache = Map.empty\<rparr>"

text \<open>The names and powers of the moves of a resolved creature.\<close>

definition moveEntries :: "template option \<Rightarrow> (string \<times> int option) list" where
  "moveEntries r = (case r of None \<Rightarrow> [] | Some t \<Rightarrow> map (\<lambda>m. (mv_name m, mv_power m)) (moves t))"

section \<open>Request coalescing\<close>

text \<open>
  \<^verbatim>\<open>getMoveDetails\<close> and \<^verbatim>\<open>getPokemonDetails\<close> share one shape around their producer: the
  cache test (lines 41 and 88), the test of the promise map (lines 47 and 94), the
  \<^verbatim>\<open>await\<close> of the stored promise (lines 72 and 164), and, in the producer, the write to the
  cache on success and \<^verbatim>\<open>delete\<close> of the promise in \<^verbatim>\<open>finally\<close> (lines 59-66 and 148-158).
  JavaScript runs each handler to its next \<^verbatim>\<open>await\<close> without interleaving, so the
  behaviour over time is a sequence of two kinds of step on the two maps:
  \<^item> \<open>Call c k\<close>: the caller \<open>c\<close> invokes the function for the key \<open>k\<close>, up to its \<^verbatim>\<open>await\<close>;
  \<^item> \<open>Settle k r\<close>: the producer for \<open>k\<close> finishes, with the value it built (\<open>Some v\<close>) or by
    failing (\<open>None\<close>); the callers that await its promise resume, in the order they came.
  A producer is invoked, and sends the remote request, in the \<open>Call\<close> that finds neither a
  cached value nor a promise. \<open>invoked\<close> lists these invocations; \<open>received\<close> lists what
  each call has resolved to, \<open>None\<close> standing for \<^verbatim>\<open>null\<close>. Values are compared by content
  here; the objects that carry them are the subject of the next section.
\<close>

datatype ('k, 'c, 'v) fetchEvent = Call 'c 'k | Settle 'k "'v option"

record ('k, 'c, 'v) layer =
  dataCache :: "'k \<rightharpoonup> 'v"
  fetchPromises :: "'k \<rightharpoonup> 'c list"
  invoked :: "'k list"
  received :: "('c \<times> 'v option) list"

text \<open>
  What the awaiting callers get from a settled producer: the value; after a failure the
  value that the function substitutes, \<open>onFailure k\<close>.
\<close>

definition settledValue :: "('k \<Rightarrow> 'v option) \<Rightarrow> 'k \<Rightarrow> 'v option \<Rightarrow> 'v option" where
  "settledValue onFailure k r = (case r of Some v \<Rightarrow> Some v | None \<Rightarrow> onFailure k)"

fun step ::
  "('k \<Rightarrow> 'v option) \<Rightarrow> ('k, 'c, 'v) layer \<Rightarrow> ('k, 'c, 'v) fetchEvent \<Rightarrow> ('k, 'c, 'v) layer" where
  "step onFailure s (Call c k) =
     (case dataCache s k of
        Some v \<Rightarrow> s\<lparr>received := received s @ [(c, Some v)]\<rparr>
      | None \<Rightarrow>
         (case fetchPromises s k of
            None \<Rightarrow> s\<lparr>invoked := invoked s @ [k], fetchPromises := (fetchPromises s)(k \<mapsto> [c])\<rparr>
          | Some waiting \<Rightarrow> s\<lparr>fetchPromises := (fetchPromises s)(k \<mapsto> waiting @ [c])\<rparr>))"
| "step onFailure s (Settle k r) =
     (case fetchPromises s k of
        None \<Rightarrow> s
      | Some waiting \<Rightarrow>
          s\<lparr>dataCache := (case r of Some v \<Rightarrow> (dataCache s)(k \<mapsto> v) | None \<Rightarrow> dataCache s),
            fetchPromises := (fetchPromises s)(k := None),
            received := received s @ map (\<lambda>c. (c, settledValue onFailure k r)) waiting\<rparr>)"

definition run ::
  "('k \<Rightarrow> 'v option) \<Rightarrow> ('k, 'c, 'v) layer \<Rightarrow> ('k, 'c, 'v) fetchEvent list \<Rightarrow> ('k, 'c, 'v) layer" where
  "run onFailure s evs = foldl (step onFailure) s evs"

text \<open>
  The two functions. A failed move fetch resolves to the default of line 64 (and of line
  75); a failed creature fetch rejects, and the callers return \<^verbatim>\<open>null\<close> (line 167).
\<close>

definition moveOnFailure :: "string \<Rightarrow> move option" where
  "moveOnFailure moveName = Some \<lparr>mv_name = moveName, mv_power = Some 0\<rparr>"

definition pokemonOnFailure :: "string \<Rightarrow> template option" where
  "pokemonOnFailure identifier = None"

definition moveLayerRun :: "(string, 'c, move) layer \<Rightarrow> (string, 'c, move) fetchEvent list \<Rightarrow> (string, 'c, move) layer" where
  "moveLayerRun = run moveOnFailure"

definition pokemonLayerRun ::
  "(string, 'c, template) layer \<Rightarrow> (string, 'c, template) fetchEvent list \<Rightarrow> (string, 'c, template) layer" where
  "pokemonLayerRun = run pokemonOnFailure"

text \<open>The callers of a key in a sequence of steps, and whether its producer settles in it.\<close>

fun callersOf :: "'k \<Rightarrow> ('k, 'c, 'v) fetchEvent list \<Rightarrow> 'c list" where
  "callersOf k [] = []"
| "callersOf k (Call c k' # evs) = (if k' = k then c # callersOf k evs else callersOf k evs)"
| "callersOf k (Settle k' r # evs) = callersOf k evs"

fun settles :: "'k \<Rightarrow> ('k, 'c, 'v) fetchEvent \<Rightarrow> bool" where
  "settles k (Call c k') = False"
| "settles k (Settle k' r) = (k' = k)"

definition emptyLayer :: "('k, 'c, 'v) layer" where
  "emptyLayer = \<lparr>dataCache = Map.empty, fetchPromises = Map.empty, invoked = [], received = []\<rparr>"

section \<open>The objects behind the caches\<close>

text \<open>
  The values of the caches are JavaScript objects, and a caller that is handed the very
  object of a cache entry could change the entry by writing to it. This section keeps the
  objects in an explicit store. A reference is a number; \<open>objects\<close> maps the references in
  use to their objects, \<open>nextRef\<close> is the next one to be used. A move object holds its two
  properties. A creature object holds its scalar properties (a \<open>template\<close> whose \<open>moves\<close>
  field is left empty) and the reference of its \<^verbatim>\<open>moves\<close> array, and the array holds the
  references of its move objects.
  \<open>moveDataCacheRef\<close> and \<open>pokemonDataCacheRef\<close> are the two caches, from key to reference.
  Two more components record who holds what the functions gave out: \<open>heldRefs\<close> are the
  move objects returned by \<^verbatim>\<open>getMoveDetails\<close> to the producers inside \<^verbatim>\<open>getPokemonDetails\<close> (its
  only callers), \<open>lent\<close> are the objects of the creatures returned by \<^verbatim>\<open>getPokemonDetails\<close> to
  its callers.
\<close>

type_synonym ref = nat

datatype cell = MoveObject move | ArrayObject "ref list" | PokemonObject template ref

record store =
  objects :: "ref \<rightharpoonup> cell"
  nextRef :: ref
  moveDataCacheRef :: "string \<rightharpoonup> ref"
  pokemonDataCacheRef :: "string \<rightharpoonup> ref"
  heldRefs :: "ref set"
  lent :: "ref set"

text \<open>An object literal, or any other creation of an object: a new reference.\<close>

definition new :: "store \<Rightarrow> cell \<Rightarrow> ref \<times> store" where
  "new s c = (nextRef s, s\<lparr>objects := (objects s)(nextRef s \<mapsto> c), nextRef := Suc (nextRef s)\<rparr>)"

text \<open>
  \<^verbatim>\<open>structuredClone\<close> on the two shapes that the functions clone: a move object, and a
  creature object with its array and the move objects in it. Every object of the copy is
  new. \<open>None\<close>: the reference does not lead to an object of that shape.
\<close>

definition cloneMove :: "store \<Rightarrow> ref \<Rightarrow> (ref \<times> store) option" where
  "cloneMove s r =
     (case objects s r of Some (MoveObject m) \<Rightarrow> Some (new s (MoveObject m)) | _ \<Rightarrow> None)"

fun cloneMoves :: "store \<Rightarrow> ref list \<Rightarrow> (ref list \<times> store) option" where
  "cloneMoves s [] = Some ([], s)"
| "cloneMoves s (r # rs) =
     (case cloneMove s r of
        None \<Rightarrow> None
      | Some (r', s1) \<Rightarrow>
         (case cloneMoves s1 rs of
            None \<Rightarrow> None
          | Some (rs', s2) \<Rightarrow> Some (r' # rs', s2)))"

definition clonePokemon :: "store \<Rightarrow> ref \<Rightarrow> (ref \<times> store) option" where
  "clonePokemon s r =
     (case objects s r of
        Some (PokemonObject t a) \<Rightarrow>
          (case objects s a of
             Some (ArrayObject rs) \<Rightarrow>
               (case cloneMoves s rs of
                  None \<Rightarrow> None
                | Some (rs', s1) \<Rightarrow>
                    let (a', s2) = new s1 (ArrayObject rs');
                        (r', s3) = new s2 (PokemonObject t a')
                    in Some (r', s3))
           | _ \<Rightarrow> None)
      | _ \<Rightarrow> None)"

text \<open>The content of a move object and of a creature object: what a reader of it sees.\<close>

definition moveAt :: "store \<Rightarrow> ref \<Rightarrow> move option" where
  "moveAt s r = (case objects s r of Some (MoveObject m) \<Rightarrow> Some m | _ \<Rightarrow> None)"

definition pokemonAt :: "store \<Rightarrow> ref \<Rightarrow> template option" where
  "pokemonAt s r =
     (case objects s r of
        Some (PokemonObject t a) \<Rightarrow>
          (case objects s a of
             Some (ArrayObject rs) \<Rightarrow>
               map_option (\<lambda>ms. t\<lparr>moves := ms\<rparr>) (those (map (moveAt s) rs))
           | _ \<Rightarrow> None)
      | _ \<Rightarrow> None)"

text \<open>The objects that make up a creature: the object, its array, the moves in the array.\<close>

definition footprint :: "store \<Rightarrow> ref \<Rightarrow> ref set" where
  "footprint s r =
     insert r (case objects s r of
                 Some (PokemonObject t a) \<Rightarrow>
                   insert a (case objects s a of Some (ArrayObject rs) \<Rightarrow> set rs | _ \<Rightarrow> {})
               | _ \<Rightarrow> {})"

text \<open>The objects that the caches reach.\<close>

definition cacheOwned :: "store \<Rightarrow> ref set" where
  "cacheOwned s =
     ran (moveDataCacheRef s) \<union> (\<Union>r \<in> ran (pokemonDataCacheRef s). footprint s r)"

subsection \<open>The steps that touch objects\<close>

text \<open>
  Each step is one stretch of the source that runs without interruption.
  \<^item> \<open>MoveHit n\<close>: \<^verbatim>\<open>getMoveDetails\<close> finds \<open>n\<close> cached and returns a clone (lines 41-44).
  \<^item> \<open>MoveSettle n p w\<close>: the producer for \<open>n\<close> gets its answer, \<open>Some p\<close> the remote power or
    \<open>None\<close> a failure. It builds the move object, on success stores it in the cache (lines
    52-60), else builds the default (line 64); each of the \<open>w\<close> callers that await the
    promise then returns a clone of that object (lines 72-73).
  \<^item> \<open>PokemonHit k\<close>: \<^verbatim>\<open>getPokemonDetails\<close> finds \<open>k\<close> cached and returns a clone (lines 88-91).
  \<^item> \<open>PokemonSettle k d ms w\<close>: the producer for \<open>k\<close> finishes. With \<open>d = Some t\<close> it builds
    \<^verbatim>\<open>formattedData\<close> from the scalar properties \<open>t\<close> and a new array of \<open>ms\<close>, the move
    objects that its calls of \<^verbatim>\<open>getMoveDetails\<close> returned, and stores it in the cache (lines
    135-148); each of the \<open>w\<close> awaiting callers returns a clone (lines 164-165). With
    \<open>d = None\<close> it throws, and the callers return \<^verbatim>\<open>null\<close>.
  \<^item> \<open>Mutate f\<close>: the holders of objects that were given out write to them; \<open>f\<close> gives the new
    content of every object, and is followed on the objects given out only: references
    cannot be forged, so no holder reaches any other object.
  A step yields the new store and the references returned to the callers.

  The awaiting callers resume one by one after the producer has finished, and other code
  may run in between. On success the object they each clone is the one in the cache, so a
  caller that resumes late does what a hit does; on failure it is the default object of
  line 64, which only the promise refers to and of which only clones are returned. Taking
  the clones in the step of the producer therefore loses no behaviour of the objects.
\<close>

datatype storeEvent =
    MoveHit string
  | MoveSettle string "remotePower option" nat
  | PokemonHit string
  | PokemonSettle string "template option" "ref list" nat
  | Mutate "ref \<Rightarrow> cell option"

text \<open>\<open>w\<close> clones of one move object, each given to a producer.\<close>

fun giveMoves :: "store \<Rightarrow> ref \<Rightarrow> nat \<Rightarrow> store \<times> ref option list" where
  "giveMoves s r 0 = (s, [])"
| "giveMoves s r (Suc w) =
     (case cloneMove s r of
        None \<Rightarrow> (s, [])
      | Some (r', s1) \<Rightarrow>
          let (s2, out) = giveMoves (s1\<lparr>heldRefs := insert r' (heldRefs s1)\<rparr>) r w
          in (s2, Some r' # out))"

text \<open>\<open>w\<close> clones of one creature, each given to a caller of \<^verbatim>\<open>getPokemonDetails\<close>.\<close>

fun givePokemon :: "store \<Rightarrow> ref \<Rightarrow> nat \<Rightarrow> store \<times> ref option list" where
  "givePokemon s r 0 = (s, [])"
| "givePokemon s r (Suc w) =
     (case clonePokemon s r of
        None \<Rightarrow> (s, [])
      | Some (r', s1) \<Rightarrow>
          let (s2, out) = givePokemon (s1\<lparr>lent := lent s1 \<union> footprint s1 r'\<rparr>) r w
          in (s2, Some r' # out))"

definition moveDataOf :: "string \<Rightarrow> remotePower option \<Rightarrow> move" where
  "moveDataOf moveName answer =
     (case answer of
        Some pw \<Rightarrow> \<lparr>mv_name = formatMoveName moveName,
                    mv_power = (case pw of PowerNull \<Rightarrow> Some 0 | PowerNumber n \<Rightarrow> Some n
                                | PowerOther \<Rightarrow> None)\<rparr>
      | None \<Rightarrow> \<lparr>mv_name = moveName, mv_power = Some 0\<rparr>)"

fun storeStep :: "store \<Rightarrow> storeEvent \<Rightarrow> store \<times> ref option list" where
  "storeStep s (MoveHit n) =
     (case moveDataCacheRef s n of None \<Rightarrow> (s, []) | Some r \<Rightarrow> giveMoves s r 1)"
| "storeStep s (MoveSettle n answer w) =
     (let (r, s1) = new s (MoveObject (moveDataOf n answer));
          s2 = (if answer = None then s1
                else s1\<lparr>moveDataCacheRef := (moveDataCacheRef s1)(n \<mapsto> r)\<rparr>)
      in giveMoves s2 r w)"
| "storeStep s (PokemonHit k) =
     (case pokemonDataCacheRef s k of None \<Rightarrow> (s, []) | Some r \<Rightarrow> givePokemon s r 1)"
| "storeStep s (PokemonSettle k d ms w) =
     (case d of
        None \<Rightarrow> (s\<lparr>heldRefs := heldRefs s - set ms\<rparr>, replicate w None)
      | Some t \<Rightarrow>
          let (a, s1) = new s (ArrayObject ms);
              (r, s2) = new s1 (PokemonObject (t\<lparr>moves := []\<rparr>) a);
              s3 = s2\<lparr>pokemonDataCacheRef := (pokemonDataCacheRef s2)(k \<mapsto> r),
                     heldRefs := heldRefs s2 - set ms\<rparr>
          in givePokemon s3 r w)"
| "storeStep s (Mutate f) =
     (s\<lparr>objects := (\<lambda>x. if x \<in> lent s \<union> heldRefs s then f x else objects s x)\<rparr>, [])"

text \<open>
  When a step can occur. A producer exists for a key only while the key is not cached
  (section on coalescing), and what it puts in the array are move objects that
  \<^verbatim>\<open>getMoveDetails\<close> returned and that nothing else has since taken.
\<close>

fun admissible :: "store \<Rightarrow> storeEvent \<Rightarrow> bool" where
  "admissible s (MoveSettle n answer w) = (moveDataCacheRef s n = None)"
| "admissible s (PokemonSettle k d ms w) =
     (pokemonDataCacheRef s k = None \<and> set ms \<subseteq> heldRefs s)"
| "admissible s e = True"

fun runStore :: "store \<Rightarrow> storeEvent list \<Rightarrow> store option" where
  "runStore s [] = Some s"
| "runStore s (e # evs) =
     (if admissible s e then runStore (fst (storeStep s e)) evs else None)"

text \<open>
  The separation that every step keeps: all objects in use lie below \<open>nextRef\<close>, and what
  the caches reach, what the producers hold and what the callers hold are disjoint.
\<close>

definition separated :: "store \<Rightarrow> bool" where
  "separated s =
     ((\<forall>x \<in> cacheOwned s \<union> heldRefs s \<union> lent s. x < nextRef s)
      \<and> cacheOwned s \<inter> (heldRefs s \<union> lent s) = {}
      \<and> heldRefs s \<inter> lent s = {})"

definition emptyStore :: store where
  "emptyStore = \<lparr>objects = Map.empty, nextRef = 0, moveDataCacheRef = Map.empty,
     pokemonDataCacheRef = Map.empty, heldRefs = {}, lent = {}\<rparr>"

text \<open>
  From one store to a later one the caches keep what they have: the entries of the
  earlier store are entries of the later one, and the objects they reach are unchanged.
\<close>

definition keeps :: "store \<Rightarrow> store \<Rightarrow> bool" where
  "keeps s s' =
     (moveDataCacheRef s \<subseteq>\<^sub>m moveDataCacheRef s'
      \<and> pokemonDataCacheRef s \<subseteq>\<^sub>m pokemonDataCacheRef s'
      \<and> (\<forall>x \<in> cacheOwned s. objects s' x = objects s x))"

subsection \<open>An example: two fetches, then the callers overwrite what they hold\<close>

text \<open>
  The move \<open>growl\<close> is fetched by one caller, the producer of creature \<open>25\<close>, which builds
  the creature for two callers. Then the creature and the move are read from the cache once
  more, and every object that was given out is overwritten.
\<close>

definition exFetches :: "storeEvent list" where
  "exFetches = [MoveSettle ''growl'' (Some PowerNull) 1, PokemonSettle ''25'' (Some pikachu) [1] 2]"

definition exCached :: store where
  "exCached = the (runStore emptyStore exFetches)"

definition scribble :: "ref \<Rightarrow> cell option" where
  "scribble x = Some (MoveObject \<lparr>mv_name = ''Splash'', mv_power = Some 999\<rparr>)"

definition exWrites :: "storeEvent list" where
  "exWrites = [PokemonHit ''25'', MoveHit ''growl'', Mutate scribble]"

definition exWritten :: store where
  "exWritten = the (runStore exCached exWrites)"


section \<open>Properties of calculateDamage\<close>








section \<open>The action handler\<close>

lemma activeGame_storeGame:
  "activeGame (storeGame s gid g) gid' =
     (if gid' \<in> set (activeGames s) then (if gid' = gid then Some g else gameObjects s gid') else None)"
  by (simp add: activeGame_def storeGame_def)

lemma activeGame_in_registry: "activeGame s gid = Some g \<Longrightarrow> gid \<in> set (activeGames s)"
  by (simp add: activeGame_def split: if_splits)

lemma wellFormed_battle: "wellFormed g \<Longrightarrow> \<exists>bs. battleState g = Some bs"
  by (simp add: wellFormed_def split: option.splits)

lemma wellFormed_sides:
  assumes "wellFormed g" and "battleState g = Some bs" and "turn g = Some p"
  shows "sd_id (fst (pickSides bs p)) = p"
    and "sd_id (snd (pickSides bs p)) \<noteq> p"
    and "findOpponent g p = Some (sd_id (snd (pickSides bs p)))"
    and "players g p \<noteq> None"
    and "players g (sd_id (snd (pickSides bs p))) \<noteq> None"
    and "activePokemon (fst (pickSides bs p)) \<noteq> None"
    and "activePokemon (snd (pickSides bs p)) \<noteq> None"
  using assms by (auto simp: wellFormed_def pickSides_def findOpponent_def)

lemma putSides_battle:
  "battleState g = Some bs \<Longrightarrow>
   battleState (putSides g p a b) = Some (if sd_id (fst bs) = p then (a, b) else (b, a))"
  by (simp add: putSides_def)

lemma putSides_fields [simp]:
  "turn (putSides g p a b) = turn g" "log (putSides g p a b) = log g"
  "players (putSides g p a b) = players g" "playerOrder (putSides g p a b) = playerOrder g"
  "g_id (putSides g p a b) = g_id g"
  by (simp_all add: putSides_def split: option.splits)

lemma syncSlotTeam_fields [simp]:
  "turn (syncSlotTeam g k t) = turn g" "log (syncSlotTeam g k t) = log g"
  "battleState (syncSlotTeam g k t) = battleState g"
  "playerOrder (syncSlotTeam g k t) = playerOrder g"
  "g_id (syncSlotTeam g k t) = g_id g"
  by (simp_all add: syncSlotTeam_def split: option.splits)

lemma syncSlotTeam_players:
  "players (syncSlotTeam g k t) k' = None \<longleftrightarrow> players g k' = None"
  by (simp add: syncSlotTeam_def split: option.splits)

lemma syncSlotTeam_username:
  "map_option sl_username (players (syncSlotTeam g k t) k') = map_option sl_username (players g k')"
  by (simp add: syncSlotTeam_def split: option.splits)

text \<open>The handler up to the action branch.\<close>

lemma performAction_dispatch:
  assumes "activeGame s gid = Some g" and "wellFormed g" and "battleState g = Some bs"
    and "turn g = Some p"
    and "\<not> sd_mustSwitch (fst (pickSides bs p)) \<or> isSwitch act"
  shows "performAction s p gid act rnd =
     (case act of
        Attack moveName \<Rightarrow>
          finishAction s p gid (Some (sd_id (snd (pickSides bs p))))
            (attackAction (g\<lparr>log := []\<rparr>) p (Some (sd_id (snd (pickSides bs p))))
               (fst (pickSides bs p)) (snd (pickSides bs p)) moveName rnd)
      | Switch targetIndex \<Rightarrow>
          finishAction s p gid (Some (sd_id (snd (pickSides bs p))))
            (switchAction (g\<lparr>log := []\<rparr>) p (fst (pickSides bs p)) (snd (pickSides bs p)) targetIndex)
      | OtherAction \<Rightarrow>
          (storeGame s gid (g\<lparr>log := []\<rparr>), [(ToSocket p, GameError ''Unknown action type.'')]))"
  using assms wellFormed_sides(3,6,7) [OF assms(2,3,4)]
  by (auto simp: performAction_def Let_def split: action.splits)

lemma performAction_blocked:
  assumes "activeGame s gid = Some g" and "battleState g = Some bs"
    and "sd_mustSwitch (fst (pickSides bs p))" and "\<not> isSwitch act"
  shows "performAction s p gid act rnd = (s, [])"
  using assms by (simp add: performAction_def Let_def)



lemma attackAction_faint:
  assumes "activePokemon ps = Some pp" and "activePokemon os = Some op"
    and "List.find (\<lambda>m. mv_name m = moveName) (moves pp) = Some mv" and "\<not> fainted pp"
    and "currentHp op - calculateDamage (Some pp) (Some op) (Some mv) rnd \<le> 0"
    and "team' = (sd_team os)[sd_activePokemonIndex os := op\<lparr>currentHp := 0, fainted := True\<rparr>]"
  shows "\<exists>g1. turn g1 = turn g \<and> battleState g1 = battleState g \<and> playerOrder g1 = playerOrder g
           \<and> g_id g1 = g_id g
           \<and> (\<forall>k. map_option sl_username (players g1 k) = map_option sl_username (players g k))
           \<and> attackAction g p opp ps os moveName rnd =
               (if filter (\<lambda>q. \<not> fainted q) team' = []
                then GameIsOver (putSides g1 p ps (os\<lparr>sd_team := team'\<rparr>))
                else TurnEnded (putSides (g1\<lparr>turn := opp\<rparr>) p ps
                                  (os\<lparr>sd_team := team', sd_mustSwitch := True\<rparr>)))"
proof -
  define L where "L = log g @ [usedMsg ps pp mv,
      hitMsg os op mv (calculateDamage (Some pp) (Some op) (Some mv) rnd), faintedMsg os op]"
  define g1 where "g1 = syncSlotTeam (g\<lparr>log := L\<rparr>) (sd_id os) team'"
  have props: "turn g1 = turn g \<and> battleState g1 = battleState g \<and> playerOrder g1 = playerOrder g
           \<and> g_id g1 = g_id g
           \<and> (\<forall>k. map_option sl_username (players g1 k) = map_option sl_username (players g k))"
    by (simp add: g1_def syncSlotTeam_username)
  have eq: "attackAction g p opp ps os moveName rnd =
               (if filter (\<lambda>q. \<not> fainted q) team' = []
                then GameIsOver (putSides g1 p ps (os\<lparr>sd_team := team'\<rparr>))
                else TurnEnded (putSides (g1\<lparr>turn := opp\<rparr>) p ps
                                  (os\<lparr>sd_team := team', sd_mustSwitch := True\<rparr>)))"
    using assms by (simp add: attackAction_def Let_def g1_def L_def)
  show ?thesis using props eq by blast
qed

lemma activePokemon_faint:
  assumes "activePokemon os = Some op"
  shows "activePokemon (os\<lparr>sd_team := (sd_team os)[sd_activePokemonIndex os := q], sd_mustSwitch := b\<rparr>) = Some q"
    and "activePokemon (os\<lparr>sd_team := (sd_team os)[sd_activePokemonIndex os := q]\<rparr>) = Some q"
  using assms by (auto simp: activePokemon_def split: if_splits)

lemma survivor_remains:
  assumes "j < length team" and "j \<noteq> i" and "\<not> fainted (team ! j)"
  shows "filter (\<lambda>q. \<not> fainted q) (team[i := x]) \<noteq> []"
proof -
  have "team[i := x] ! j \<in> set (team[i := x])"
    using assms(1) by (simp del: nth_list_update_neq)
  moreover have "team[i := x] ! j = team ! j" using assms(2) by simp
  ultimately show ?thesis using assms(3) by (auto simp: filter_empty_conv)
qed



lemma leaveRoom_fields [simp]:
  "activeGames (leaveRoom s p r) = activeGames s"
  "gameObjects (leaveRoom s p r) = gameObjects s"
  "leaderboard (leaveRoom s p r) = leaderboard s"
  "sockets (leaveRoom s p r) = sockets s"
  "waitingPlayer (leaveRoom s p r) = waitingPlayer s"
  by (simp_all add: leaveRoom_def split: option.splits)

lemma activeGame_leaveRoom [simp]: "activeGame (leaveRoom s p r) gid = activeGame s gid"
  by (simp add: activeGame_def)


text \<open>
  The handler on an accepted attack that brings the defender's active creature to 0 or
  below: the match it leaves and, when a teammate still stands, the state and the events.
\<close>

lemma performAction_faint:
  assumes ag: "activeGame s gid = Some g" and wf: "wellFormed g" and tn: "turn g = Some atk"
    and ps: "sideOf g atk = Some ps" and os: "otherSideOf g atk = Some os"
    and free: "\<not> sd_mustSwitch ps"
    and pp: "activePokemon ps = Some pp" and op: "activePokemon os = Some op"
    and mv: "List.find (\<lambda>m. mv_name m = moveName) (moves pp) = Some mv"
    and up: "\<not> fainted pp"
    and hit: "currentHp op - calculateDamage (Some pp) (Some op) (Some mv) rnd \<le> 0"
    and team': "team' = (sd_team os)[sd_activePokemonIndex os := op\<lparr>currentHp := 0, fainted := True\<rparr>]"
  shows "\<exists>g1. g_id g1 = g_id g \<and> playerOrder g1 = playerOrder g
           \<and> (\<forall>k. map_option sl_username (players g1 k) = map_option sl_username (players g k))
           \<and> (filter (\<lambda>q. \<not> fainted q) team' = [] \<longrightarrow>
                 turn g1 = Some atk
                 \<and> sideOf g1 atk = Some ps \<and> otherSideOf g1 atk = Some (os\<lparr>sd_team := team'\<rparr>)
                 \<and> performAction s atk gid (Attack moveName) rnd =
                     gameOverStep s atk gid (Some (sd_id os)) g1)
           \<and> (filter (\<lambda>q. \<not> fainted q) team' \<noteq> [] \<longrightarrow>
                 turn g1 = Some (sd_id os)
                 \<and> sideOf g1 atk = Some ps
                 \<and> otherSideOf g1 atk = Some (os\<lparr>sd_team := team', sd_mustSwitch := True\<rparr>)
                 \<and> sideOf g1 (sd_id os) = Some (os\<lparr>sd_team := team', sd_mustSwitch := True\<rparr>)
                 \<and> performAction s atk gid (Attack moveName) rnd =
                     (storeGame s gid g1,
                      [(ToRoom gid, GameStateUpdate (Some (stateToSend g1))),
                       (ToRoom (sd_id os), ForceSwitch (faintReason (Some (op\<lparr>currentHp := 0, fainted := True\<rparr>))))]))"
proof -
  obtain bs where bs: "battleState g = Some bs" using wellFormed_battle [OF wf] by blast
  have psd: "ps = fst (pickSides bs atk)" and osd: "os = snd (pickSides bs atk)"
    using ps os bs by (simp_all add: sideOf_def otherSideOf_def)
  note sides = wellFormed_sides [OF wf bs tn]
  have ne: "sd_id os \<noteq> atk" using sides(2) osd by simp
  have reg: "gid \<in> set (activeGames s)" using activeGame_in_registry [OF ag] .
  define os1 where "os1 = os\<lparr>sd_team := team'\<rparr>"
  define os2 where "os2 = os\<lparr>sd_team := team', sd_mustSwitch := True\<rparr>"
  obtain g1 where g1: "turn g1 = turn (g\<lparr>log := []\<rparr>)" "battleState g1 = battleState (g\<lparr>log := []\<rparr>)"
      "playerOrder g1 = playerOrder (g\<lparr>log := []\<rparr>)" "g_id g1 = g_id (g\<lparr>log := []\<rparr>)"
      "\<forall>k. map_option sl_username (players g1 k) = map_option sl_username (players (g\<lparr>log := []\<rparr>) k)"
    and act: "attackAction (g\<lparr>log := []\<rparr>) atk (Some (sd_id os)) ps os moveName rnd =
               (if filter (\<lambda>q. \<not> fainted q) team' = []
                then GameIsOver (putSides g1 atk ps os1)
                else TurnEnded (putSides (g1\<lparr>turn := Some (sd_id os)\<rparr>) atk ps os2))"
    using attackAction_faint [OF pp op mv up hit team', of "g\<lparr>log := []\<rparr>" atk "Some (sd_id os)"]
    unfolding os1_def os2_def by blast
  have run: "performAction s atk gid (Attack moveName) rnd =
      finishAction s atk gid (Some (sd_id os))
        (attackAction (g\<lparr>log := []\<rparr>) atk (Some (sd_id os)) ps os moveName rnd)"
    using performAction_dispatch [OF ag wf bs tn, of "Attack moveName" rnd] free
    by (simp add: psd [symmetric] osd [symmetric])
  have pick: "pickSides (if sd_id (fst bs) = atk then (ps, x) else (x, ps)) atk = (ps, x)"
    if "sd_id x = sd_id os" for x
    using sides(1) psd ne that by (auto simp: pickSides_def)
  have pick': "fst (pickSides (if sd_id (fst bs) = atk then (ps, x) else (x, ps)) (sd_id os)) = x"
    if "sd_id x = sd_id os" for x
    using sides(1) psd ne that by (auto simp: pickSides_def)
  show ?thesis
  proof (cases "filter (\<lambda>q. \<not> fainted q) team' = []")
    case True
    define gA where "gA = putSides g1 atk ps os1"
    have bsA: "battleState gA = Some (if sd_id (fst bs) = atk then (ps, os1) else (os1, ps))"
      unfolding gA_def using g1(2) bs by (simp add: putSides_def)
    have "sideOf gA atk = Some ps \<and> otherSideOf gA atk = Some os1"
      using bsA pick [of os1] by (simp add: sideOf_def otherSideOf_def os1_def)
    moreover have "performAction s atk gid (Attack moveName) rnd = gameOverStep s atk gid (Some (sd_id os)) gA"
      using run act True by (simp add: finishAction_def gA_def)
    moreover have "g_id gA = g_id g \<and> playerOrder gA = playerOrder g \<and> turn gA = Some atk
           \<and> (\<forall>k. map_option sl_username (players gA k) = map_option sl_username (players g k))"
      using g1 tn by (simp add: gA_def)
    ultimately show ?thesis using True unfolding os1_def by blast
  next
    case False
    define g2 where "g2 = putSides (g1\<lparr>turn := Some (sd_id os)\<rparr>) atk ps os2"
    define g3 where "g3 = g2\<lparr>log := log g2 @ [mustSwitchMsg (sd_username os2)]\<rparr>"
    have bs2: "battleState g2 = Some (if sd_id (fst bs) = atk then (ps, os2) else (os2, ps))"
      unfolding g2_def using g1(2) bs by (simp add: putSides_def)
    have pk: "pickSides (if sd_id (fst bs) = atk then (ps, os2) else (os2, ps)) atk = (ps, os2)"
      using pick [of os2] by (simp add: os2_def)
    have ap: "activePokemon os2 = Some (op\<lparr>currentHp := 0, fainted := True\<rparr>)"
      using activePokemon_faint(1) [OF op] by (simp add: os2_def team')
    have ms: "sd_mustSwitch os2" by (simp add: os2_def)
    have "performAction s atk gid (Attack moveName) rnd = turnEndStep s atk gid (Some (sd_id os)) g2"
      using run act False by (simp add: finishAction_def g2_def)
    also have "\<dots> = (storeGame s gid g3,
        [(ToRoom gid, GameStateUpdate (getSanitizedGameState (storeGame s gid g3) gid)),
         (ToRoom (sd_id os), ForceSwitch (faintReason (activePokemon os2)))])"
      using bs2 pk ms by (simp add: turnEndStep_def Let_def g3_def)
    finally have "performAction s atk gid (Attack moveName) rnd =
       (storeGame s gid g3,
        [(ToRoom gid, GameStateUpdate (getSanitizedGameState (storeGame s gid g3) gid)),
         (ToRoom (sd_id os), ForceSwitch (faintReason (activePokemon os2)))])" .
    moreover have "getSanitizedGameState (storeGame s gid g3) gid = Some (stateToSend g3)"
      using reg by (simp add: getSanitizedGameState_def activeGame_storeGame)
    moreover have "sideOf g3 atk = Some ps \<and> otherSideOf g3 atk = Some os2 \<and> sideOf g3 (sd_id os) = Some os2"
      using bs2 pk pick' [of os2] by (simp add: sideOf_def otherSideOf_def g3_def os2_def)
    moreover have "g_id g3 = g_id g \<and> playerOrder g3 = playerOrder g \<and> turn g3 = Some (sd_id os)
           \<and> (\<forall>k. map_option sl_username (players g3 k) = map_option sl_username (players g k))"
      using g1 by (simp add: g3_def g2_def)
    ultimately show ?thesis using False ap unfolding os2_def by auto
  qed
qed

lemma sideOf_blocks:
  assumes "activeGame s gid = Some g" and "sideOf g p = Some sd" and "sd_mustSwitch sd"
    and "\<not> isSwitch act"
  shows "performAction s p gid act rnd = (s, [])"
proof -
  obtain bs where bs: "battleState g = Some bs" and sd: "sd = fst (pickSides bs p)"
    using assms(2) by (auto simp: sideOf_def)
  show ?thesis using performAction_blocked [OF assms(1) bs] assms(3,4) sd by simp
qed


lemma gameOverStep_result:
  assumes "players g1 w = Some sw" and "players g1 l = Some sl" and "gid \<in> set (activeGames s)"
    and "gf = g1\<lparr>log := log g1 @ [gameOverMsg (sl_username sw) (sl_username sl)]\<rparr>"
  shows "\<exists>s'. gameOverStep s w gid (Some l) g1 =
                 (s', [(ToRoom gid, GameStateUpdate (Some (stateToSend gf))),
                       (ToRoom gid, GameOver w (Some (stateToSend gf)))])
              \<and> activeGames s' = removeAll gid (activeGames s)
              \<and> gameObjects s' = (gameObjects s)(gid \<mapsto> gf)
              \<and> leaderboard s' = (leaderboard s)(sl_username sw \<mapsto>
                    (case leaderboard s (sl_username sw) of None \<Rightarrow> 0 | Some n \<Rightarrow> n) + 1)
              \<and> sockets s' = sockets s \<and> waitingPlayer s' = waitingPlayer s"
  using assms
  by (simp add: gameOverStep_def Let_def getSanitizedGameState_def activeGame_def storeGame_def
      deleteGame_def)

lemma exServer_game: "activeGame (exServer g) ''g1'' = Some g"
  by (simp add: activeGame_def exServer_def)

lemma exGame_wellFormed: "0 < length ta \<Longrightarrow> 0 < length tb \<Longrightarrow> wellFormed (exGame ta tb)"
  by (simp add: wellFormed_def exGame_def sideOfSlot_def exSlot_def activePokemon_def)

lemma exGame_sides:
  "sideOf (exGame ta tb) ''A'' = Some (sideOfSlot (exSlot ''A'' ''Ann'' True ta) ta)"
  "otherSideOf (exGame ta tb) ''A'' = Some (sideOfSlot (exSlot ''B'' ''Bob'' False tb) tb)"
  "turn (exGame ta tb) = Some ''A''"
  by (simp_all add: sideOf_def otherSideOf_def exGame_def pickSides_def sideOfSlot_def exSlot_def)

lemma exSide_active:
  "activePokemon (sideOfSlot (exSlot i u f (p # ps)) (p # ps)) = Some p"
  "\<not> sd_mustSwitch (sideOfSlot (exSlot i u f t) t)"
  "sd_id (sideOfSlot (exSlot i u f t) t) = i"
  "sd_team (sideOfSlot (exSlot i u f t) t) = t"
  "sd_activePokemonIndex (sideOfSlot (exSlot i u f t) t) = 0"
  by (simp_all add: activePokemon_def sideOfSlot_def exSlot_def)

lemma ex_hit:
  "List.find (\<lambda>m. mv_name m = ''Thunder Shock'') (moves (instantiate pikachu)) = Some thunderShock"
  "\<not> fainted (instantiate pikachu)"
  "currentHp (weak (instantiate charmander))
     - calculateDamage (Some (instantiate pikachu)) (Some (weak (instantiate charmander)))
         (Some thunderShock) (1 / 2) \<le> 0"
  by (simp_all add: instantiate_def pikachu_def charmander_def thunderShock_def growl_def weak_def
      template.defs pokemon.defs calculateDamage_def missingData_def baseDamage_def randomFactor_def)

text \<open>
  Claim C6. An accepted attack that brings the defender's active creature to 0 hit points
  or below leaves that creature, the element of the defender's team it is, with
  \<open>currentHp = 0\<close> and \<open>fainted = True\<close>. If another member of the defender's team has not
  fainted, the match stays registered, the turn is the defender's, the defender is flagged
  \<open>mustSwitch\<close>, and every attack the defender then submits returns with the state
  unchanged and nothing emitted.
\<close>

theorem faint_forces_switch:
  assumes ag: "activeGame s gid = Some g" and wf: "wellFormed g" and tn: "turn g = Some atk"
    and ps: "sideOf g atk = Some ps" and os: "otherSideOf g atk = Some os"
    and free: "\<not> sd_mustSwitch ps"
    and pp: "activePokemon ps = Some pp" and op: "activePokemon os = Some op"
    and mv: "List.find (\<lambda>m. mv_name m = moveName) (moves pp) = Some mv"
    and up: "\<not> fainted pp"
    and hit: "currentHp op - calculateDamage (Some pp) (Some op) (Some mv) rnd \<le> 0"
    and run: "performAction s atk gid (Attack moveName) rnd = (s', evs)"
  shows "(\<exists>g' os' op'.
            gameObjects s' gid = Some g' \<and> otherSideOf g' atk = Some os'
            \<and> activePokemon os' = Some op' \<and> sd_team os' ! sd_activePokemonIndex os' = op'
            \<and> currentHp op' = 0 \<and> fainted op')
       \<and> ((\<exists>j < length (sd_team os). j \<noteq> sd_activePokemonIndex os \<and> \<not> fainted (sd_team os ! j))
            \<longrightarrow> (\<exists>g' os'.
                   activeGame s' gid = Some g' \<and> otherSideOf g' atk = Some os'
                   \<and> sd_id os' = sd_id os \<and> sd_id os \<noteq> atk
                   \<and> turn g' = Some (sd_id os) \<and> sd_mustSwitch os'
                   \<and> (\<forall>m r. performAction s' (sd_id os) gid (Attack m) r = (s', []))))"
proof -
  define op' where "op' = op\<lparr>currentHp := 0, fainted := True\<rparr>"
  define team' where "team' = (sd_team os)[sd_activePokemonIndex os := op']"
  define os1 where "os1 = os\<lparr>sd_team := team'\<rparr>"
  define os2 where "os2 = os\<lparr>sd_team := team', sd_mustSwitch := True\<rparr>"
  obtain bs where bs: "battleState g = Some bs" using wellFormed_battle [OF wf] by blast
  note sides = wellFormed_sides [OF wf bs tn]
  have osd: "os = snd (pickSides bs atk)" using os bs by (simp add: otherSideOf_def)
  have ne: "sd_id os \<noteq> atk" using sides(2) osd by simp
  have reg: "gid \<in> set (activeGames s)" using activeGame_in_registry [OF ag] .
  have act1: "activePokemon os1 = Some op'" "sd_team os1 ! sd_activePokemonIndex os1 = op'"
    using op by (auto simp: os1_def team'_def activePokemon_def split: if_splits)
  have act2: "activePokemon os2 = Some op'" "sd_team os2 ! sd_activePokemonIndex os2 = op'"
    using op by (auto simp: os2_def team'_def activePokemon_def split: if_splits)
  obtain g1 where un: "\<forall>k. map_option sl_username (players g1 k) = map_option sl_username (players g k)"
    and over: "filter (\<lambda>q. \<not> fainted q) team' = [] \<Longrightarrow>
                 otherSideOf g1 atk = Some os1
                 \<and> performAction s atk gid (Attack moveName) rnd =
                     gameOverStep s atk gid (Some (sd_id os)) g1"
    and cont: "filter (\<lambda>q. \<not> fainted q) team' \<noteq> [] \<Longrightarrow>
                 turn g1 = Some (sd_id os)
                 \<and> otherSideOf g1 atk = Some os2 \<and> sideOf g1 (sd_id os) = Some os2
                 \<and> performAction s atk gid (Attack moveName) rnd =
                     (storeGame s gid g1,
                      [(ToRoom gid, GameStateUpdate (Some (stateToSend g1))),
                       (ToRoom (sd_id os), ForceSwitch (faintReason (Some op')))])"
    using performAction_faint [OF ag wf tn ps os free pp op mv up hit, of team']
    unfolding team'_def op'_def os1_def os2_def by blast
  have first: "\<exists>g' os' op'.
            gameObjects s' gid = Some g' \<and> otherSideOf g' atk = Some os'
            \<and> activePokemon os' = Some op' \<and> sd_team os' ! sd_activePokemonIndex os' = op'
            \<and> currentHp op' = 0 \<and> fainted op'"
  proof (cases "filter (\<lambda>q. \<not> fainted q) team' = []")
    case True
    obtain sw sl where sw: "players g1 atk = Some sw" and sl: "players g1 (sd_id os) = Some sl"
      using un sides(4,5) osd
      by (metis map_option_is_None not_None_eq)
    define gf where "gf = g1\<lparr>log := log g1 @ [gameOverMsg (sl_username sw) (sl_username sl)]\<rparr>"
    obtain t where "gameOverStep s atk gid (Some (sd_id os)) g1 =
                 (t, [(ToRoom gid, GameStateUpdate (Some (stateToSend gf))),
                      (ToRoom gid, GameOver atk (Some (stateToSend gf)))])"
      and "gameObjects t = (gameObjects s)(gid \<mapsto> gf)"
      using gameOverStep_result [OF sw sl reg gf_def] by blast
    then have "gameObjects s' gid = Some gf" using over [OF True] run by simp
    moreover have "otherSideOf gf atk = Some os1"
      using over [OF True] by (simp add: gf_def otherSideOf_def)
    ultimately show ?thesis using act1 by (auto simp: op'_def)
  next
    case False
    have "s' = storeGame s gid g1" using cont [OF False] run by simp
    then have "gameObjects s' gid = Some g1" by (simp add: storeGame_def)
    then show ?thesis using cont [OF False] act2 by (auto simp: op'_def)
  qed
  have second: "\<exists>g' os'.
                   activeGame s' gid = Some g' \<and> otherSideOf g' atk = Some os'
                   \<and> sd_id os' = sd_id os \<and> sd_id os \<noteq> atk
                   \<and> turn g' = Some (sd_id os) \<and> sd_mustSwitch os'
                   \<and> (\<forall>m r. performAction s' (sd_id os) gid (Attack m) r = (s', []))"
    if rest: "\<exists>j < length (sd_team os). j \<noteq> sd_activePokemonIndex os \<and> \<not> fainted (sd_team os ! j)"
  proof -
    have alive: "filter (\<lambda>q. \<not> fainted q) team' \<noteq> []"
      using rest survivor_remains unfolding team'_def by blast
    have s': "s' = storeGame s gid g1" using cont [OF alive] run by simp
    have ag': "activeGame s' gid = Some g1"
      using s' reg by (simp add: activeGame_storeGame)
    have s1: "sideOf g1 (sd_id os) = Some os2" using cont [OF alive] by simp
    have blocked: "\<forall>m r. performAction s' (sd_id os) gid (Attack m) r = (s', [])"
      using sideOf_blocks [OF ag' s1] by (simp add: os2_def)
    show ?thesis
      using ag' cont [OF alive] ne blocked by (auto simp: os2_def)
  qed
  show ?thesis using first second by blast
qed

theorem faint_forces_switch_witness:
  "\<exists>g' os'. activeGame (fst (performAction (exServer (exGame exTeamA exTeamB)) ''A'' ''g1''
                               (Attack ''Thunder Shock'') (1 / 2))) ''g1'' = Some g'
      \<and> otherSideOf g' ''A'' = Some os' \<and> turn g' = Some ''B'' \<and> sd_mustSwitch os'
      \<and> performAction (fst (performAction (exServer (exGame exTeamA exTeamB)) ''A'' ''g1''
                               (Attack ''Thunder Shock'') (1 / 2))) ''B'' ''g1'' (Attack ''Growl'') 0
          = (fst (performAction (exServer (exGame exTeamA exTeamB)) ''A'' ''g1''
                               (Attack ''Thunder Shock'') (1 / 2)), [])"
proof -
  let ?s = "exServer (exGame exTeamA exTeamB)"
  let ?r = "performAction ?s ''A'' ''g1'' (Attack ''Thunder Shock'') (1 / 2)"
  have wf: "wellFormed (exGame exTeamA exTeamB)"
    by (rule exGame_wellFormed) (simp_all add: exTeamA_def exTeamB_def)
  have pp: "activePokemon (sideOfSlot (exSlot ''A'' ''Ann'' True exTeamA) exTeamA) = Some (instantiate pikachu)"
    unfolding exTeamA_def by (rule exSide_active(1))
  have op: "activePokemon (sideOfSlot (exSlot ''B'' ''Bob'' False exTeamB) exTeamB)
              = Some (weak (instantiate charmander))"
    unfolding exTeamB_def by (rule exSide_active(1))
  have rest: "\<exists>j < length (sd_team (sideOfSlot (exSlot ''B'' ''Bob'' False exTeamB) exTeamB)).
                j \<noteq> sd_activePokemonIndex (sideOfSlot (exSlot ''B'' ''Bob'' False exTeamB) exTeamB)
                \<and> \<not> fainted (sd_team (sideOfSlot (exSlot ''B'' ''Bob'' False exTeamB) exTeamB) ! j)"
    by (rule exI [where x = 2])
       (simp add: exSide_active exTeamB_def instantiate_def pikachu_def template.defs pokemon.defs)
  have run: "?r = (fst ?r, snd ?r)" by simp
  show ?thesis
    using faint_forces_switch [OF exServer_game wf exGame_sides(3) exGame_sides(1) exGame_sides(2)
        exSide_active(2) pp op ex_hit run] rest
    by (auto simp: exSide_active)
qed





text \<open>
  What the handler does with a switch by the player who holds the turn. The switch is
  carried out when the index is within the team, the target has not fainted and the
  \<^verbatim>\<open>id\<close> of the target differs from the \<^verbatim>\<open>id\<close> of the active creature (line 320 compares
  the species identifiers, not the positions). Then the active index is the target, the
  player's \<open>mustSwitch\<close> is cleared, both teams are as they were, and the turn goes to the
  opponent. Otherwise the handler returns, leaving the log cleared.
\<close>

lemma performAction_switch:
  assumes ag: "activeGame s gid = Some g" and wf: "wellFormed g" and tn: "turn g = Some p"
    and ps: "sideOf g p = Some ps" and os: "otherSideOf g p = Some os"
    and pp: "activePokemon ps = Some pp"
  shows "0 \<le> i \<and> i < int (length (sd_team ps)) \<and> \<not> fainted (sd_team ps ! nat i)
           \<and> pk_id (sd_team ps ! nat i) \<noteq> pk_id pp \<and> \<not> sd_mustSwitch os \<Longrightarrow>
         \<exists>g'. performAction s p gid (Switch i) rnd =
                 (storeGame s gid g', [(ToRoom gid, GameStateUpdate (Some (stateToSend g')))])
              \<and> turn g' = Some (sd_id os)
              \<and> sideOf g' p = Some (ps\<lparr>sd_activePokemonIndex := nat i, sd_mustSwitch := False\<rparr>)
              \<and> otherSideOf g' p = Some os"
    and "\<not> (0 \<le> i \<and> i < int (length (sd_team ps)) \<and> \<not> fainted (sd_team ps ! nat i)
           \<and> pk_id (sd_team ps ! nat i) \<noteq> pk_id pp) \<Longrightarrow>
         performAction s p gid (Switch i) rnd = (storeGame s gid (g\<lparr>log := []\<rparr>), [])"
proof -
  obtain bs where bs: "battleState g = Some bs" using wellFormed_battle [OF wf] by blast
  have psd: "ps = fst (pickSides bs p)" and osd: "os = snd (pickSides bs p)"
    using ps os bs by (simp_all add: sideOf_def otherSideOf_def)
  note sides = wellFormed_sides [OF wf bs tn]
  have ne: "sd_id os \<noteq> p" using sides(2) osd by simp
  have reg: "gid \<in> set (activeGames s)" using activeGame_in_registry [OF ag] .
  have run: "performAction s p gid (Switch i) rnd =
      finishAction s p gid (Some (sd_id os)) (switchAction (g\<lparr>log := []\<rparr>) p ps os i)"
    using performAction_dispatch [OF ag wf bs tn, of "Switch i" rnd]
    by (simp add: psd [symmetric] osd [symmetric])
  {
    assume no: "\<not> (0 \<le> i \<and> i < int (length (sd_team ps)) \<and> \<not> fainted (sd_team ps ! nat i)
           \<and> pk_id (sd_team ps ! nat i) \<noteq> pk_id pp)"
    then have "switchAction (g\<lparr>log := []\<rparr>) p ps os i = Returned (g\<lparr>log := []\<rparr>) []"
      using pp by (auto simp: switchAction_def Let_def)
    then show "performAction s p gid (Switch i) rnd = (storeGame s gid (g\<lparr>log := []\<rparr>), [])"
      using run by (simp add: finishAction_def)
  }
  {
    assume ok: "0 \<le> i \<and> i < int (length (sd_team ps)) \<and> \<not> fainted (sd_team ps ! nat i)
           \<and> pk_id (sd_team ps ! nat i) \<noteq> pk_id pp \<and> \<not> sd_mustSwitch os"
    define ps' where "ps' = ps\<lparr>sd_activePokemonIndex := nat i, sd_mustSwitch := False\<rparr>"
    define g1 where "g1 = putSides (g\<lparr>log := [switchedMsg ps (pk_name pp) (sd_team ps ! nat i)]\<rparr>) p ps' os"
    define g2 where "g2 = g1\<lparr>turn := Some (sd_id os), log := log g1 @ [turnMsg (sd_username os)]\<rparr>"
    have sw: "switchAction (g\<lparr>log := []\<rparr>) p ps os i = TurnEnded g1"
      using pp ok by (simp add: switchAction_def Let_def g1_def ps'_def)
    have bs1: "battleState g1 = Some (if sd_id (fst bs) = p then (ps', os) else (os, ps'))"
      using bs by (simp add: g1_def putSides_def)
    have pk: "pickSides (if sd_id (fst bs) = p then (ps', os) else (os, ps')) p = (ps', os)"
      using sides(1) psd ne by (auto simp: pickSides_def ps'_def)
    have "performAction s p gid (Switch i) rnd = turnEndStep s p gid (Some (sd_id os)) g1"
      using run sw by (simp add: finishAction_def)
    also have "\<dots> = (storeGame s gid g2,
          [(ToRoom gid, GameStateUpdate (getSanitizedGameState (storeGame s gid g2) gid))])"
      using bs1 pk ok by (simp add: turnEndStep_def Let_def g2_def)
    finally have "performAction s p gid (Switch i) rnd = (storeGame s gid g2,
          [(ToRoom gid, GameStateUpdate (Some (stateToSend g2)))])"
      using reg by (simp add: getSanitizedGameState_def activeGame_storeGame)
    moreover have "turn g2 = Some (sd_id os)" by (simp add: g2_def)
    moreover have "sideOf g2 p = Some ps' \<and> otherSideOf g2 p = Some os"
      using bs1 pk by (simp add: g2_def sideOf_def otherSideOf_def)
    ultimately show "\<exists>g'. performAction s p gid (Switch i) rnd =
                 (storeGame s gid g', [(ToRoom gid, GameStateUpdate (Some (stateToSend g')))])
              \<and> turn g' = Some (sd_id os)
              \<and> sideOf g' p = Some (ps\<lparr>sd_activePokemonIndex := nat i, sd_mustSwitch := False\<rparr>)
              \<and> otherSideOf g' p = Some os"
      unfolding ps'_def by blast
  }
qed

text \<open>
  Claim C3 at a team with a repeated identifier. The player's team is two Pikachu and a
  Charmander, the first Pikachu active. The target index 1 is in range, that creature has
  not fainted and is not the active one (index 0), yet the switch is refused: the state
  is the old one with the log cleared, the turn stays, nothing is emitted.
\<close>

theorem switch_same_species_rejected:
  "sd_activePokemonIndex (sideOfSlot (exSlot ''A'' ''Ann'' True exTeamA) exTeamA) = 0
   \<and> 1 < length exTeamA \<and> \<not> fainted (exTeamA ! 1)
   \<and> performAction (exServer (exGame exTeamA exTeamB)) ''A'' ''g1'' (Switch 1) 0
       = (storeGame (exServer (exGame exTeamA exTeamB)) ''g1'' ((exGame exTeamA exTeamB)\<lparr>log := []\<rparr>), [])"
proof -
  have wf: "wellFormed (exGame exTeamA exTeamB)"
    by (rule exGame_wellFormed) (simp_all add: exTeamA_def exTeamB_def)
  have pp: "activePokemon (sideOfSlot (exSlot ''A'' ''Ann'' True exTeamA) exTeamA) = Some (instantiate pikachu)"
    unfolding exTeamA_def by (rule exSide_active(1))
  have same: "pk_id (sd_team (sideOfSlot (exSlot ''A'' ''Ann'' True exTeamA) exTeamA) ! nat 1)
                = pk_id (instantiate pikachu)"
    by (simp add: exSide_active exTeamA_def)
  have "performAction (exServer (exGame exTeamA exTeamB)) ''A'' ''g1'' (Switch 1) 0
       = (storeGame (exServer (exGame exTeamA exTeamB)) ''g1'' ((exGame exTeamA exTeamB)\<lparr>log := []\<rparr>), [])"
    using performAction_switch(2) [OF exServer_game wf exGame_sides(3) exGame_sides(1) exGame_sides(2) pp]
      same by blast
  then show ?thesis
    by (simp add: exSide_active exTeamA_def instantiate_def pikachu_def template.defs pokemon.defs)
qed



section \<open>The disconnect handler\<close>

lemma findGameOf_Some:
  assumes "findGameOf s sock = Some gid"
  shows "\<exists>g. activeGame s gid = Some g \<and> players g sock \<noteq> None"
  using assms by (auto simp: findGameOf_def find_Some_iff split: option.splits)

lemma findGameOf_only:
  assumes "activeGame s gid = Some g" and "players g sock \<noteq> None"
    and "\<forall>gid' g'. activeGame s gid' = Some g' \<and> players g' sock \<noteq> None \<longrightarrow> gid' = gid"
  shows "findGameOf s sock = Some gid"
proof (cases "findGameOf s sock")
  case None
  then show ?thesis
    using assms(1,2) activeGame_in_registry [OF assms(1)]
    by (auto simp: findGameOf_def find_None_iff)
next
  case (Some x)
  then show ?thesis using findGameOf_Some [OF Some] assms(3) by auto
qed



lemma dropSocket_fields [simp]:
  "activeGames (dropSocket s x) = activeGames s" "gameObjects (dropSocket s x) = gameObjects s"
  "leaderboard (dropSocket s x) = leaderboard s" "waitingPlayer (dropSocket s x) = waitingPlayer s"
  "sockets (dropSocket s x) = sockets s - {x}"
  by (simp_all add: dropSocket_def)






section \<open>Team selection\<close>











section \<open>Resolution of a creature\<close>

lemma getMoveDetails_failed:
  assumes "mc (mi_name mi) = None" and "moveEndpoint rem (mi_url mi) = None"
  shows "getMoveDetails rem mc mi = (\<lparr>mv_name = mi_name mi, mv_power = Some 0\<rparr>, mc)"
  using assms by (simp add: getMoveDetails_def)

lemma getMoveDetails_cache_other:
  assumes "mc n = None" and "mi_name mi \<noteq> n"
  shows "snd (getMoveDetails rem mc mi) n = None"
  using assms by (auto simp: getMoveDetails_def Let_def split: option.splits)

lemma getAllMoveDetails_fallback:
  assumes "mc n = None"
    and "\<forall>mi \<in> set mis. mi_name mi = n \<longrightarrow> moveEndpoint rem (mi_url mi) = None"
  shows "snd (getAllMoveDetails rem mc mis) n = None
         \<and> ((\<exists>mi \<in> set mis. mi_name mi = n) \<longrightarrow>
              \<lparr>mv_name = n, mv_power = Some 0\<rparr> \<in> set (fst (getAllMoveDetails rem mc mis)))"
  using assms
proof (induction mis arbitrary: mc)
  case Nil
  then show ?case by simp
next
  case (Cons mi mis)
  obtain m mc1 where one: "getMoveDetails rem mc mi = (m, mc1)" by (cases "getMoveDetails rem mc mi")
  obtain ms mc2 where rest: "getAllMoveDetails rem mc1 mis = (ms, mc2)"
    by (cases "getAllMoveDetails rem mc1 mis")
  have all: "getAllMoveDetails rem mc (mi # mis) = (m # ms, mc2)"
    using one rest by simp
  have mc1: "mc1 n = None"
  proof (cases "mi_name mi = n")
    case True
    then show ?thesis
      using getMoveDetails_failed [of mc mi rem] Cons.prems one by simp
  next
    case False
    then show ?thesis
      using getMoveDetails_cache_other [of mc n mi rem] Cons.prems(1) one by simp
  qed
  have ih: "snd (getAllMoveDetails rem mc1 mis) n = None
         \<and> ((\<exists>mi \<in> set mis. mi_name mi = n) \<longrightarrow>
              \<lparr>mv_name = n, mv_power = Some 0\<rparr> \<in> set (fst (getAllMoveDetails rem mc1 mis)))"
    using Cons.IH [of mc1] mc1 Cons.prems(2) by simp
  have here: "mi_name mi = n \<Longrightarrow> m = \<lparr>mv_name = n, mv_power = Some 0\<rparr>"
    using getMoveDetails_failed [of mc mi rem] Cons.prems one by simp
  show ?case using all ih rest here by auto
qed

text \<open>
  Claim C2, as amended. A creature is resolved from the remote source (it is not cached,
  its species record arrives, its ability name formats), one of its selected moves has
  the key \<open>n\<close>, the key is not in the move cache, and the move endpoint fails for it. Then
  \<^verbatim>\<open>getPokemonDetails\<close> yields a creature, and the moves of the creature contain the entry
  with the name \<open>n\<close> itself, as the remote lists it, and power 0. The default entry is
  not put in the move cache.
\<close>

theorem move_failure_degrades:
  assumes "pokemonDataCache c (map toLowerChar idString) = None"
    and "pokemonEndpoint rem (map toLowerChar idString) = Some data"
    and "selectAbility data \<noteq> None"
    and "\<exists>mi \<in> set (selectMoves data). mi_name mi = n"
    and "moveDataCache c n = None"
    and "\<forall>mi \<in> set (selectMoves data). mi_name mi = n \<longrightarrow> moveEndpoint rem (mi_url mi) = None"
  shows "\<exists>t. fst (getPokemonDetails rem c idString) = Some t
             \<and> \<lparr>mv_name = n, mv_power = Some 0\<rparr> \<in> set (moves t)
             \<and> moveDataCache (snd (getPokemonDetails rem c idString)) n = None"
proof -
  obtain ms mc1 where ms: "getAllMoveDetails rem (moveDataCache c) (selectMoves data) = (ms, mc1)"
    by (cases "getAllMoveDetails rem (moveDataCache c) (selectMoves data)")
  have fb: "mc1 n = None \<and> \<lparr>mv_name = n, mv_power = Some 0\<rparr> \<in> set ms"
    using getAllMoveDetails_fallback [of "moveDataCache c" n "selectMoves data" rem] assms(4,5,6) ms
    by simp
  obtain ab where ab: "selectAbility data = Some ab" using assms(3) by auto
  show ?thesis
    using assms(1,2) ms ab fb
    by (simp add: getPokemonDetails_def formatPokemon_def Let_def)
qed

theorem move_failure_degrades_witness:
  "moveEntries (fst (getPokemonDetails exRemote noCaches ''1'')) = [(''tackle'', Some 0), (''Vine Whip'', Some 45)]
   \<and> moveDataCache (snd (getPokemonDetails exRemote noCaches ''1'')) ''tackle'' = None"
proof -
  have sel: "selectMoves exSpecies = [exMoveInfo ''tackle'', exMoveInfo ''vine-whip'']"
    by code_simp
  have 1: "pokemonDataCache noCaches (map toLowerChar ''1'') = None" by (simp add: noCaches_def)
  have 2: "pokemonEndpoint exRemote (map toLowerChar ''1'') = Some exSpecies" by code_simp
  have 3: "selectAbility exSpecies \<noteq> None" by code_simp
  have 4: "\<exists>mi \<in> set (selectMoves exSpecies). mi_name mi = ''tackle''"
    unfolding sel by (simp add: exMoveInfo_def)
  have 5: "moveDataCache noCaches ''tackle'' = None" by (simp add: noCaches_def)
  have 6: "\<forall>mi \<in> set (selectMoves exSpecies). mi_name mi = ''tackle'' \<longrightarrow> moveEndpoint exRemote (mi_url mi) = None"
    unfolding sel by (simp add: exMoveInfo_def exRemote_def)
  have v: "moveEntries (fst (getPokemonDetails exRemote noCaches ''1'')) = [(''tackle'', Some 0), (''Vine Whip'', Some 45)]"
    by code_simp
  show ?thesis using move_failure_degrades [OF 1 2 3 4 5 6] v by auto
qed

text \<open>
  Claim C2 as stated fails on the name of the entry: the default of line 64 carries the key
  \<^verbatim>\<open>tackle\<close>; the formatted name \<^verbatim>\<open>Tackle\<close> is built on the success path only (line 55).
\<close>

theorem move_fallback_name_counterexample:
  "moveEndpoint exRemote (mi_url (exMoveInfo ''tackle'')) = None
   \<and> moveEntries (fst (getPokemonDetails exRemote noCaches ''1''))
       = [(''tackle'', Some 0), (''Vine Whip'', Some 45)]
   \<and> (''Tackle'', Some 0) \<notin> set (moveEntries (fst (getPokemonDetails exRemote noCaches ''1'')))"
  by code_simp



section \<open>Coalescing of concurrent fetches\<close>

lemma run_Cons: "run f s (e # evs) = run f (step f s e) evs"
  by (simp add: run_def)

lemma run_Nil: "run f s [] = s"
  by (simp add: run_def)

lemma step_other_key:
  assumes "\<not> settles k e" and "callersOf k [e] = []"
  shows "dataCache (step f s e) k = dataCache s k"
    and "fetchPromises (step f s e) k = fetchPromises s k"
    and "count_list (invoked (step f s e)) k = count_list (invoked s) k"
  using assms by (cases e; auto split: option.splits if_splits)+

lemma step_call_key:
  assumes "dataCache s k = None"
  shows "dataCache (step f s (Call c k)) k = None"
    and "fetchPromises (step f s (Call c k)) k =
           Some ((case fetchPromises s k of None \<Rightarrow> [] | Some ws \<Rightarrow> ws) @ [c])"
    and "count_list (invoked (step f s (Call c k))) k =
           count_list (invoked s) k + (if fetchPromises s k = None then 1 else 0)"
  using assms by (auto split: option.splits)

text \<open>
  While the producer of \<open>k\<close> does not settle and \<open>k\<close> is not cached: the key stays
  uncached, its promise collects the callers in order, and its producer is invoked once,
  by the first caller that finds no promise.
\<close>

lemma run_window:
  assumes "dataCache s k = None" and "\<forall>e \<in> set evs. \<not> settles k e"
  shows "dataCache (run f s evs) k = None
       \<and> fetchPromises (run f s evs) k =
           (case fetchPromises s k of
              None \<Rightarrow> (if callersOf k evs = [] then None else Some (callersOf k evs))
            | Some ws \<Rightarrow> Some (ws @ callersOf k evs))
       \<and> count_list (invoked (run f s evs)) k =
           count_list (invoked s) k
           + (if fetchPromises s k = None \<and> callersOf k evs \<noteq> [] then 1 else 0)"
  using assms
proof (induction evs arbitrary: s)
  case Nil
  then show ?case by (simp add: run_Nil split: option.splits)
next
  case (Cons e evs)
  have rest: "\<forall>e \<in> set evs. \<not> settles k e" and here: "\<not> settles k e"
    using Cons.prems(2) by simp_all
  show ?case
  proof (cases "\<exists>c. e = Call c k")
    case True
    then obtain c where e: "e = Call c k" by blast
    note st = step_call_key [OF Cons.prems(1), of f c]
    have ih: "dataCache (run f (step f s e) evs) k = None
       \<and> fetchPromises (run f (step f s e) evs) k =
           Some (((case fetchPromises s k of None \<Rightarrow> [] | Some ws \<Rightarrow> ws) @ [c]) @ callersOf k evs)
       \<and> count_list (invoked (run f (step f s e) evs)) k =
           count_list (invoked (step f s e)) k"
      using Cons.IH [of "step f s e"] st rest e by simp
    show ?thesis
      using ih st(3) e by (simp add: run_Cons split: option.splits)
  next
    case False
    then have none: "callersOf k [e] = []" by (cases e) auto
    note st = step_other_key [OF here none, of f s]
    have tail: "callersOf k (e # evs) = callersOf k evs"
      using False by (cases e) auto
    show ?thesis
      unfolding tail run_Cons
      using Cons.IH [of "step f s e"] st rest Cons.prems(1) by simp
  qed
qed

lemma callersOf_take: "length (callersOf k (take n evs)) \<le> length (callersOf k evs)"
proof (induction evs arbitrary: n)
  case Nil
  then show ?case by simp
next
  case (Cons e evs)
  show ?case
  proof (cases n)
    case 0
    then show ?thesis by simp
  next
    case (Suc m)
    then show ?thesis using Cons.IH [of m] by (cases e) auto
  qed
qed

text \<open>
  Claim C1. The key \<open>k\<close> has no cached value and no fetch in flight; then any steps follow
  in which at least two callers ask for \<open>k\<close> and the producer of \<open>k\<close> does not settle
  (calls and settlements for other keys may come in between). Over these steps the
  producer of \<open>k\<close> is invoked exactly once, and at no moment more than once; the promise
  map holds one entry for \<open>k\<close>, awaited by all the callers. When the producer settles, with
  a value or by failing, the entry is removed, nothing more is invoked, and every one of
  the callers receives the same value. This holds for either function: \<open>onFailure\<close> is
  \<open>moveOnFailure\<close> for \<^verbatim>\<open>getMoveDetails\<close> and \<open>pokemonOnFailure\<close> for \<^verbatim>\<open>getPokemonDetails\<close>.
\<close>

theorem coalescing:
  assumes unknown: "dataCache s k = None" and idle: "fetchPromises s k = None"
    and window: "\<forall>e \<in> set evs. \<not> settles k e"
    and many: "2 \<le> length (callersOf k evs)"
  shows "count_list (invoked (run onFailure s evs)) k = count_list (invoked s) k + 1
       \<and> (\<forall>n. count_list (invoked (run onFailure s (take n evs))) k \<le> count_list (invoked s) k + 1)
       \<and> fetchPromises (run onFailure s evs) k = Some (callersOf k evs)
       \<and> fetchPromises (step onFailure (run onFailure s evs) (Settle k r)) k = None
       \<and> invoked (step onFailure (run onFailure s evs) (Settle k r)) = invoked (run onFailure s evs)
       \<and> received (step onFailure (run onFailure s evs) (Settle k r))
           = received (run onFailure s evs)
             @ map (\<lambda>c. (c, settledValue onFailure k r)) (callersOf k evs)"
proof -
  have ne: "callersOf k evs \<noteq> []" using many by auto
  have w: "fetchPromises (run onFailure s evs) k = Some (callersOf k evs)"
    and c: "count_list (invoked (run onFailure s evs)) k = count_list (invoked s) k + 1"
    using run_window [OF unknown window, of onFailure] idle ne by simp_all
  have pre: "count_list (invoked (run onFailure s (take n evs))) k \<le> count_list (invoked s) k + 1" for n
  proof -
    have "\<forall>e \<in> set (take n evs). \<not> settles k e"
      using window by (meson in_set_takeD)
    then show ?thesis using run_window [OF unknown, of "take n evs" onFailure] idle by simp
  qed
  have settle: "fetchPromises (step onFailure (run onFailure s evs) (Settle k r)) k = None
       \<and> invoked (step onFailure (run onFailure s evs) (Settle k r)) = invoked (run onFailure s evs)
       \<and> received (step onFailure (run onFailure s evs) (Settle k r))
           = received (run onFailure s evs)
             @ map (\<lambda>c. (c, settledValue onFailure k r)) (callersOf k evs)"
    using w by simp
  show ?thesis using c pre w settle by blast
qed

lemma emptyLayer_fields:
  "dataCache emptyLayer k = None" "fetchPromises emptyLayer k = None"
  "invoked emptyLayer = []" "received emptyLayer = []"
  by (simp_all add: emptyLayer_def)

lemma run_snoc: "run f s (evs @ [e]) = step f (run f s evs) e"
  by (simp add: run_def)

theorem coalescing_witness:
  "invoked (moveLayerRun emptyLayer
      [Call ''bulbasaur'' ''tackle'', Call ''pikachu'' ''growl'', Call ''squirtle'' ''tackle''])
     = [''tackle'', ''growl'']
   \<and> received (moveLayerRun emptyLayer
        ([Call ''bulbasaur'' ''tackle'', Call ''pikachu'' ''growl'', Call ''squirtle'' ''tackle'']
         @ [Settle ''tackle'' None]))
       = [(''bulbasaur'', Some \<lparr>mv_name = ''tackle'', mv_power = Some 0\<rparr>),
          (''squirtle'', Some \<lparr>mv_name = ''tackle'', mv_power = Some 0\<rparr>)]
   \<and> received (pokemonLayerRun emptyLayer
        ([Call ''A'' ''25'', Call ''B'' ''25''] @ [Settle ''25'' (Some pikachu)]))
       = [(''A'', Some pikachu), (''B'', Some pikachu)]
   \<and> fetchPromises (pokemonLayerRun emptyLayer
        ([Call ''A'' ''25'', Call ''B'' ''25''] @ [Settle ''25'' (Some pikachu)])) ''25'' = None"
proof -
  let ?m = "[Call ''bulbasaur'' ''tackle'', Call ''pikachu'' ''growl'', Call ''squirtle'' ''tackle'']
              :: (string, string, move) fetchEvent list"
  let ?p = "[Call ''A'' ''25'', Call ''B'' ''25''] :: (string, string, template) fetchEvent list"
  have rm: "received (run moveOnFailure emptyLayer ?m) = []"
    "invoked (run moveOnFailure emptyLayer ?m) = [''tackle'', ''growl'']"
    by (simp_all add: run_def emptyLayer_def)
  have rp: "received (run pokemonOnFailure emptyLayer ?p) = []"
    by (simp add: run_def emptyLayer_def)
  have wm: "\<forall>e \<in> set ?m. \<not> settles ''tackle'' e" "2 \<le> length (callersOf ''tackle'' ?m)"
    by simp_all
  have wp: "\<forall>e \<in> set ?p. \<not> settles ''25'' e" "2 \<le> length (callersOf ''25'' ?p)"
    by simp_all
  have cm: "callersOf ''tackle'' ?m = [''bulbasaur'', ''squirtle'']" by simp
  have cp: "callersOf ''25'' ?p = [''A'', ''B'']" by simp
  have m: "received (step moveOnFailure (run moveOnFailure emptyLayer ?m) (Settle ''tackle'' None))
             = received (run moveOnFailure emptyLayer ?m)
               @ map (\<lambda>c. (c, settledValue moveOnFailure ''tackle'' None)) (callersOf ''tackle'' ?m)"
    using coalescing [OF emptyLayer_fields(1,2) wm, of moveOnFailure None] by blast
  have p: "received (step pokemonOnFailure (run pokemonOnFailure emptyLayer ?p) (Settle ''25'' (Some pikachu)))
             = received (run pokemonOnFailure emptyLayer ?p)
               @ map (\<lambda>c. (c, settledValue pokemonOnFailure ''25'' (Some pikachu))) (callersOf ''25'' ?p)"
    and q: "fetchPromises (step pokemonOnFailure (run pokemonOnFailure emptyLayer ?p)
                             (Settle ''25'' (Some pikachu))) ''25'' = None"
    using coalescing [OF emptyLayer_fields(1,2) wp, of pokemonOnFailure "Some pikachu"] by blast+
  show ?thesis
    unfolding moveLayerRun_def pokemonLayerRun_def run_snoc m p q cm cp rm rp
    by (simp add: settledValue_def moveOnFailure_def)
qed


section \<open>Independence of the cached objects\<close>

subsection \<open>Contents depend on the footprint only\<close>

lemma footprint_self: "r \<in> footprint s r"
  by (simp add: footprint_def)

lemma footprint_cong:
  assumes "\<forall>x \<in> footprint s r. objects s' x = objects s x"
  shows "footprint s' r = footprint s r" and "pokemonAt s' r = pokemonAt s r"
proof -
  have r: "objects s' r = objects s r" using assms footprint_self by blast
  show "footprint s' r = footprint s r"
  proof (cases "objects s r")
    case None
    then show ?thesis using r by (simp add: footprint_def)
  next
    case (Some c)
    show ?thesis
    proof (cases c)
      case (PokemonObject t a)
      have "a \<in> footprint s r" using Some PokemonObject by (simp add: footprint_def)
      then have "objects s' a = objects s a" using assms by blast
      then show ?thesis using r Some PokemonObject by (simp add: footprint_def)
    qed (use r Some in \<open>simp_all add: footprint_def\<close>)
  qed
  show "pokemonAt s' r = pokemonAt s r"
  proof (cases "objects s r")
    case None
    then show ?thesis using r by (simp add: pokemonAt_def)
  next
    case (Some c)
    show ?thesis
    proof (cases c)
      case (PokemonObject t a)
      have ain: "a \<in> footprint s r" using Some PokemonObject by (simp add: footprint_def)
      then have a: "objects s' a = objects s a" using assms by blast
      show ?thesis
      proof (cases "objects s a")
        case None
        then show ?thesis using r a Some PokemonObject by (simp add: pokemonAt_def)
      next
        case sa: (Some ca)
        show ?thesis
        proof (cases ca)
          case (ArrayObject rs)
          have "set rs \<subseteq> footprint s r"
            using Some PokemonObject sa ArrayObject by (auto simp: footprint_def)
          then have "\<forall>x \<in> set rs. moveAt s' x = moveAt s x"
            using assms by (auto simp: moveAt_def)
          then have me: "map (moveAt s') rs = map (moveAt s) rs" by simp
          show ?thesis using r a Some PokemonObject sa ArrayObject by (simp add: pokemonAt_def me)
        qed (use r a Some PokemonObject sa in \<open>simp_all add: pokemonAt_def\<close>)
      qed
    qed (use r Some in \<open>simp_all add: pokemonAt_def\<close>)
  qed
qed

lemma moveAt_cong: "objects s' r = objects s r \<Longrightarrow> moveAt s' r = moveAt s r"
  by (simp add: moveAt_def)

text \<open>If the objects the caches reach are untouched and the caches are the same, the caches reach the same objects.\<close>

lemma cacheOwned_cong:
  assumes "\<forall>x \<in> cacheOwned s. objects s' x = objects s x"
    and "moveDataCacheRef s' = moveDataCacheRef s"
    and "pokemonDataCacheRef s' = pokemonDataCacheRef s"
  shows "cacheOwned s' = cacheOwned s"
proof -
  have "footprint s' r = footprint s r" if "r \<in> ran (pokemonDataCacheRef s)" for r
  proof -
    have "footprint s r \<subseteq> cacheOwned s" using that by (auto simp: cacheOwned_def)
    then show ?thesis using footprint_cong(1) [of s r s'] assms(1) by blast
  qed
  then show ?thesis using assms(2,3) by (simp add: cacheOwned_def)
qed

subsection \<open>Cloning\<close>

lemma new_fields:
  "fst (new s c) = nextRef s" "nextRef (snd (new s c)) = Suc (nextRef s)"
  "objects (snd (new s c)) = (objects s)(nextRef s \<mapsto> c)"
  "moveDataCacheRef (snd (new s c)) = moveDataCacheRef s"
  "pokemonDataCacheRef (snd (new s c)) = pokemonDataCacheRef s"
  "heldRefs (snd (new s c)) = heldRefs s" "lent (snd (new s c)) = lent s"
  by (simp_all add: new_def)

lemma cloneMove_Some:
  assumes "cloneMove s r = Some (r', s')"
  shows "r' = nextRef s" and "nextRef s' = Suc (nextRef s)"
    and "\<exists>m. moveAt s r = Some m \<and> objects s' = (objects s)(r' \<mapsto> MoveObject m)"
    and "moveDataCacheRef s' = moveDataCacheRef s" and "pokemonDataCacheRef s' = pokemonDataCacheRef s"
    and "heldRefs s' = heldRefs s" and "lent s' = lent s"
  using assms
  by (auto simp: cloneMove_def new_def moveAt_def split: option.splits cell.splits)

lemma cloneMove_succeeds:
  "moveAt s r = Some m \<Longrightarrow> \<exists>s'. cloneMove s r = Some (nextRef s, s')"
  by (auto simp: cloneMove_def new_def moveAt_def split: option.splits cell.splits)

lemma cloneMoves_Some:
  assumes "cloneMoves s rs = Some (rs', s')" and "\<forall>r \<in> set rs. r < nextRef s"
  shows "nextRef s \<le> nextRef s' \<and> (\<forall>x < nextRef s. objects s' x = objects s x)
       \<and> set rs' \<subseteq> {nextRef s..<nextRef s'}
       \<and> map (moveAt s') rs' = map (moveAt s) rs
       \<and> moveDataCacheRef s' = moveDataCacheRef s \<and> pokemonDataCacheRef s' = pokemonDataCacheRef s
       \<and> heldRefs s' = heldRefs s \<and> lent s' = lent s"
  using assms
proof (induction rs arbitrary: s rs' s')
  case Nil
  then show ?case by simp
next
  case (Cons r rs)
  from Cons.prems(1) obtain r1 s1 rs1 where one: "cloneMove s r = Some (r1, s1)"
    and rest: "cloneMoves s1 rs = Some (rs1, s')" and rs': "rs' = r1 # rs1"
    by (auto split: option.splits)
  note c = cloneMove_Some [OF one]
  obtain m where m: "moveAt s r = Some m" "objects s1 = (objects s)(r1 \<mapsto> MoveObject m)"
    using c(3) by blast
  have below: "\<forall>x \<in> set rs. x < nextRef s1" using Cons.prems(2) c(2) by auto
  note ih = Cons.IH [OF rest below]
  have keep: "\<forall>x < nextRef s. objects s' x = objects s x"
    using ih c(1,2) m(2) by auto
  have r1: "moveAt s' r1 = Some m"
    using ih c(1,2) m(2) by (simp add: moveAt_def)
  have old: "map (moveAt s1) rs = map (moveAt s) rs"
    using Cons.prems(2) c(1) m(2) by (auto simp: moveAt_def)
  show ?case
    using ih c rs' keep r1 m(1) old by auto
qed

lemma cloneMoves_succeeds:
  assumes "those (map (moveAt s) rs) = Some ms" and "\<forall>r \<in> set rs. r < nextRef s"
  shows "\<exists>rs' s'. cloneMoves s rs = Some (rs', s')"
  using assms
proof (induction rs arbitrary: s ms)
  case Nil
  then show ?case by simp
next
  case (Cons r rs)
  from Cons.prems(1) obtain m ms1 where m: "moveAt s r = Some m"
    and ms1: "those (map (moveAt s) rs) = Some ms1"
    by (auto split: option.splits)
  obtain s1 where one: "cloneMove s r = Some (nextRef s, s1)" using cloneMove_succeeds [OF m] by blast
  note c = cloneMove_Some [OF one]
  have old: "map (moveAt s1) rs = map (moveAt s) rs"
    using Cons.prems(2) c(3) by (auto simp: moveAt_def)
  have "\<forall>x \<in> set rs. x < nextRef s1" using Cons.prems(2) c(2) by auto
  then obtain rs' s' where "cloneMoves s1 rs = Some (rs', s')"
    using Cons.IH [of s1 ms1] ms1 old by auto
  then show ?case using one by simp
qed


lemma pokemonAt_Some:
  assumes "pokemonAt s r = Some t"
  obtains t0 a rs ms where "objects s r = Some (PokemonObject t0 a)"
    and "objects s a = Some (ArrayObject rs)" and "those (map (moveAt s) rs) = Some ms"
    and "t = t0\<lparr>moves := ms\<rparr>" and "footprint s r = insert r (insert a (set rs))"
  using assms
  by (auto simp: pokemonAt_def footprint_def split: option.splits cell.splits)

lemma clonePokemon_Some:
  assumes "pokemonAt s r = Some t" and "footprint s r \<subseteq> {..<nextRef s}"
  shows "\<exists>r' s'. clonePokemon s r = Some (r', s') \<and> pokemonAt s' r' = Some t
           \<and> footprint s' r' \<subseteq> {nextRef s..<nextRef s'}
           \<and> nextRef s \<le> nextRef s' \<and> (\<forall>x < nextRef s. objects s' x = objects s x)
           \<and> moveDataCacheRef s' = moveDataCacheRef s
           \<and> pokemonDataCacheRef s' = pokemonDataCacheRef s
           \<and> heldRefs s' = heldRefs s \<and> lent s' = lent s"
proof -
  obtain t0 a rs ms where r: "objects s r = Some (PokemonObject t0 a)"
    and a: "objects s a = Some (ArrayObject rs)" and ms: "those (map (moveAt s) rs) = Some ms"
    and t: "t = t0\<lparr>moves := ms\<rparr>" and fp: "footprint s r = insert r (insert a (set rs))"
    using pokemonAt_Some [OF assms(1)] by blast
  have below: "\<forall>x \<in> set rs. x < nextRef s" using assms(2) fp by auto
  obtain rs' s1 where cl: "cloneMoves s rs = Some (rs', s1)"
    using cloneMoves_succeeds [OF ms below] by blast
  note c = cloneMoves_Some [OF cl below]
  define a' where "a' = nextRef s1"
  define r' where "r' = Suc (nextRef s1)"
  define s3 where "s3 = snd (new (snd (new s1 (ArrayObject rs'))) (PokemonObject t0 a'))"
  have res: "clonePokemon s r = Some (r', s3)"
    using r a cl by (simp add: clonePokemon_def new_def s3_def a'_def r'_def)
  have ob: "objects s3 = (objects s1)(a' \<mapsto> ArrayObject rs', r' \<mapsto> PokemonObject t0 a')"
    and nx: "nextRef s3 = Suc (Suc (nextRef s1))"
    and same: "moveDataCacheRef s3 = moveDataCacheRef s1" "pokemonDataCacheRef s3 = pokemonDataCacheRef s1"
      "heldRefs s3 = heldRefs s1" "lent s3 = lent s1"
    by (simp_all add: s3_def new_def a'_def r'_def)
  have rs'lt: "\<forall>x \<in> set rs'. x < nextRef s1" using c by auto
  have eqs: "\<forall>x \<in> set rs'. moveAt s3 x = moveAt s1 x"
    using rs'lt by (auto simp: moveAt_def ob a'_def r'_def)
  have m1: "map (moveAt s3) rs' = map (moveAt s1) rs'"
    by (rule map_cong [OF refl]) (use eqs in blast)
  have m2: "map (moveAt s1) rs' = map (moveAt s) rs" using c by blast
  have mm: "map (moveAt s3) rs' = map (moveAt s) rs" using m1 m2 by (rule trans)
  have content: "pokemonAt s3 r' = Some t"
    using ms t by (simp add: pokemonAt_def ob a'_def r'_def mm)
  have fp3: "footprint s3 r' = insert r' (insert a' (set rs'))"
    by (simp add: footprint_def ob a'_def r'_def)
  have inside: "footprint s3 r' \<subseteq> {nextRef s..<nextRef s3}"
    using c fp3 nx by (auto simp: a'_def r'_def)
  have keep: "\<forall>x < nextRef s. objects s3 x = objects s x"
    using c by (auto simp: ob a'_def r'_def)
  show ?thesis using res content inside keep c same nx by auto
qed

text \<open>
  Giving outs \<open>w\<close> clones of a move object: the store grows, the caches stay, and each
  clone is a new object with the content of the original, held by a producer.
\<close>

lemma giveMoves_props:
  assumes "moveAt s r = Some m" and "r < nextRef s" and "giveMoves s r w = (s', outs)"
  shows "length outs = w
       \<and> (\<forall>v \<in> set outs. \<exists>r'. v = Some r' \<and> moveAt s' r' = Some m \<and> r' \<in> heldRefs s')
       \<and> nextRef s \<le> nextRef s' \<and> (\<forall>x < nextRef s. objects s' x = objects s x)
       \<and> moveDataCacheRef s' = moveDataCacheRef s
       \<and> pokemonDataCacheRef s' = pokemonDataCacheRef s
       \<and> lent s' = lent s
       \<and> heldRefs s \<subseteq> heldRefs s' \<and> heldRefs s' - heldRefs s \<subseteq> {nextRef s..<nextRef s'}"
  using assms
proof (induction w arbitrary: s s' outs)
  case 0
  then show ?case by simp
next
  case (Suc w)
  obtain s1 where one: "cloneMove s r = Some (nextRef s, s1)"
    using cloneMove_succeeds [OF Suc.prems(1)] by blast
  note c = cloneMove_Some [OF one]
  define s1' where "s1' = s1\<lparr>heldRefs := insert (nextRef s) (heldRefs s1)\<rparr>"
  obtain s2 outs2 where rest: "giveMoves s1' r w = (s2, outs2)" by (cases "giveMoves s1' r w")
  have res: "s' = s2" "outs = Some (nextRef s) # outs2"
    using Suc.prems(3) one rest by (simp_all add: s1'_def)
  obtain m' where ob: "objects s1 = (objects s)(nextRef s \<mapsto> MoveObject m')" and m': "moveAt s r = Some m'"
    using c(3) by blast
  have mm: "m' = m" using m' Suc.prems(1) by simp
  have r1: "moveAt s1' r = Some m" "r < nextRef s1'"
    using Suc.prems(1,2) c(2) ob by (auto simp: s1'_def moveAt_def)
  note ih = Suc.IH [OF r1 rest]
  have here: "moveAt s2 (nextRef s) = Some m"
    using ih c(2) ob mm by (simp add: moveAt_def s1'_def)
  have inh: "nextRef s \<in> heldRefs s2" using ih by (auto simp: s1'_def)
  have keep: "\<forall>x < nextRef s. objects s2 x = objects s x"
    using ih c(2) ob by (auto simp: s1'_def)
  have hd: "heldRefs s2 - heldRefs s \<subseteq> {nextRef s..<nextRef s2}"
  proof
    fix x assume x: "x \<in> heldRefs s2 - heldRefs s"
    have up: "nextRef s1' \<le> nextRef s2" using ih by simp
    have far: "heldRefs s2 - insert (nextRef s) (heldRefs s) \<subseteq> {Suc (nextRef s)..<nextRef s2}"
      using ih c(2,6) by (simp add: s1'_def)
    show "x \<in> {nextRef s..<nextRef s2}"
    proof (cases "x = nextRef s")
      case True
      then show ?thesis using up c(2) by (simp add: s1'_def)
    next
      case False
      then have "x \<in> {Suc (nextRef s)..<nextRef s2}" using x far by blast
      then show ?thesis by auto
    qed
  qed
  show ?case
    using ih res here inh keep hd c by (auto simp: s1'_def)
qed

lemma givePokemon_props:
  assumes "pokemonAt s r = Some t" and "footprint s r \<subseteq> {..<nextRef s}"
    and "givePokemon s r w = (s', outs)"
  shows "length outs = w
       \<and> (\<forall>v \<in> set outs. \<exists>r'. v = Some r' \<and> pokemonAt s' r' = Some t \<and> footprint s' r' \<subseteq> lent s')
       \<and> nextRef s \<le> nextRef s' \<and> (\<forall>x < nextRef s. objects s' x = objects s x)
       \<and> moveDataCacheRef s' = moveDataCacheRef s
       \<and> pokemonDataCacheRef s' = pokemonDataCacheRef s
       \<and> heldRefs s' = heldRefs s
       \<and> lent s \<subseteq> lent s' \<and> lent s' - lent s \<subseteq> {nextRef s..<nextRef s'}"
  using assms
proof (induction w arbitrary: s s' outs)
  case 0
  then show ?case by simp
next
  case (Suc w)
  obtain r1 s1 where one: "clonePokemon s r = Some (r1, s1)" and c1: "pokemonAt s1 r1 = Some t"
    and f1: "footprint s1 r1 \<subseteq> {nextRef s..<nextRef s1}"
    and g1: "nextRef s \<le> nextRef s1" "\<forall>x < nextRef s. objects s1 x = objects s x"
    and k1: "moveDataCacheRef s1 = moveDataCacheRef s" "pokemonDataCacheRef s1 = pokemonDataCacheRef s"
      "heldRefs s1 = heldRefs s" "lent s1 = lent s"
    using clonePokemon_Some [OF Suc.prems(1,2)] by blast
  define s1' where "s1' = s1\<lparr>lent := lent s1 \<union> footprint s1 r1\<rparr>"
  obtain s2 outs2 where rest: "givePokemon s1' r w = (s2, outs2)" by (cases "givePokemon s1' r w")
  have res: "s' = s2" "outs = Some r1 # outs2"
    using Suc.prems(3) one rest by (simp_all add: s1'_def)
  have ob1: "objects s1' = objects s1" "nextRef s1' = nextRef s1" by (simp_all add: s1'_def)
  have agree: "\<forall>x \<in> footprint s r. objects s1' x = objects s x"
    using Suc.prems(2) g1(2) ob1 by auto
  have r1: "pokemonAt s1' r = Some t" "footprint s1' r \<subseteq> {..<nextRef s1'}"
    using footprint_cong [OF agree] Suc.prems(1,2) g1(1) ob1 by auto
  note ih = Suc.IH [OF r1 rest]
  have agree1: "\<forall>x \<in> footprint s1 r1. objects s2 x = objects s1 x"
    using ih f1 ob1 by auto
  have here: "pokemonAt s2 r1 = Some t" "footprint s2 r1 = footprint s1 r1"
    using footprint_cong [OF agree1] c1 by auto
  have inl: "footprint s2 r1 \<subseteq> lent s2" using ih here(2) by (auto simp: s1'_def)
  have keep: "\<forall>x < nextRef s. objects s2 x = objects s x"
    using ih g1 ob1 by auto
  have ln: "lent s2 - lent s \<subseteq> {nextRef s..<nextRef s2}"
  proof
    fix x assume x: "x \<in> lent s2 - lent s"
    have up: "nextRef s1 \<le> nextRef s2" using ih ob1 by simp
    have far: "lent s2 - (lent s \<union> footprint s1 r1) \<subseteq> {nextRef s1..<nextRef s2}"
      using ih k1(4) by (simp add: s1'_def)
    show "x \<in> {nextRef s..<nextRef s2}"
    proof (cases "x \<in> footprint s1 r1")
      case True
      then show ?thesis using f1 up by auto
    next
      case False
      then have "x \<in> {nextRef s1..<nextRef s2}" using x far by blast
      then show ?thesis using g1(1) by auto
    qed
  qed
  show ?case
    using ih res here(1) inl keep ln g1(1) k1 by (auto simp: s1'_def)
qed


lemma giveMoves_fail: "moveAt s r = None \<Longrightarrow> giveMoves s r w = (s, [])"
  by (cases w) (auto simp: cloneMove_def moveAt_def split: option.splits cell.splits)

lemma cloneMoves_fails:
  assumes "those (map (moveAt s) rs) = None" and "\<forall>r \<in> set rs. r < nextRef s"
  shows "cloneMoves s rs = None"
  using assms
proof (induction rs arbitrary: s)
  case Nil
  then show ?case by simp
next
  case (Cons r rs)
  show ?case
  proof (cases "moveAt s r")
    case None
    then have "cloneMove s r = None"
      by (auto simp: cloneMove_def moveAt_def split: option.splits cell.splits)
    then show ?thesis by simp
  next
    case (Some m)
    obtain s1 where one: "cloneMove s r = Some (nextRef s, s1)" using cloneMove_succeeds [OF Some] by blast
    note c = cloneMove_Some [OF one]
    have old: "map (moveAt s1) rs = map (moveAt s) rs"
      using Cons.prems(2) c(3) by (auto simp: moveAt_def)
    have none: "those (map (moveAt s1) rs) = None"
      using Cons.prems(1) Some by (simp add: old split: option.splits)
    have "\<forall>x \<in> set rs. x < nextRef s1" using Cons.prems(2) c(2) by auto
    then show ?thesis using Cons.IH [OF none] one by simp
  qed
qed

lemma clonePokemon_fails:
  assumes "pokemonAt s r = None" and "footprint s r \<subseteq> {..<nextRef s}"
  shows "clonePokemon s r = None"
proof (cases "objects s r")
  case None
  then show ?thesis by (simp add: clonePokemon_def)
next
  case (Some c)
  show ?thesis
  proof (cases c)
    case (PokemonObject t a)
    show ?thesis
    proof (cases "objects s a")
      case None
      then show ?thesis using Some PokemonObject by (simp add: clonePokemon_def)
    next
      case sa: (Some ca)
      show ?thesis
      proof (cases ca)
        case (ArrayObject rs)
        have "set rs \<subseteq> footprint s r"
          using Some PokemonObject sa ArrayObject by (auto simp: footprint_def)
        then have below: "\<forall>x \<in> set rs. x < nextRef s" using assms(2) by auto
        have "those (map (moveAt s) rs) = None"
          using assms(1) Some PokemonObject sa ArrayObject by (simp add: pokemonAt_def)
        then show ?thesis
          using cloneMoves_fails [OF _ below] Some PokemonObject sa ArrayObject
          by (simp add: clonePokemon_def)
      qed (use Some PokemonObject sa in \<open>simp_all add: clonePokemon_def\<close>)
    qed
  qed (use Some in \<open>simp_all add: clonePokemon_def\<close>)
qed

lemma givePokemon_fail:
  "pokemonAt s r = None \<Longrightarrow> footprint s r \<subseteq> {..<nextRef s} \<Longrightarrow> givePokemon s r w = (s, [])"
  using clonePokemon_fails [of s r] by (cases w) auto

subsection \<open>The separation is kept\<close>

lemma cacheOwned_below: "separated s \<Longrightarrow> x \<in> cacheOwned s \<Longrightarrow> x < nextRef s"
  by (simp add: separated_def)

lemma separated_grow:
  assumes sep: "separated s"
    and g: "nextRef s \<le> nextRef s'" "\<forall>x < nextRef s. objects s' x = objects s x"
    and c: "moveDataCacheRef s' = moveDataCacheRef s" "pokemonDataCacheRef s' = pokemonDataCacheRef s"
    and h: "heldRefs s \<subseteq> heldRefs s'" "heldRefs s' - heldRefs s \<subseteq> {nextRef s..<nextRef s'}"
    and l: "lent s \<subseteq> lent s'" "lent s' - lent s \<subseteq> {nextRef s..<nextRef s'}"
    and d: "(heldRefs s' - heldRefs s) \<inter> (lent s' - lent s) = {}"
  shows "separated s'" and "keeps s s'"
proof -
  have agree: "\<forall>x \<in> cacheOwned s. objects s' x = objects s x"
    using sep g(2) by (auto simp: separated_def)
  have co: "cacheOwned s' = cacheOwned s" using cacheOwned_cong [OF agree c] .
  show "keeps s s'" using agree c by (simp add: keeps_def)
  have old: "\<forall>x \<in> cacheOwned s \<union> heldRefs s \<union> lent s. x < nextRef s"
    and dj: "cacheOwned s \<inter> (heldRefs s \<union> lent s) = {}" "heldRefs s \<inter> lent s = {}"
    using sep by (simp_all add: separated_def)
  have b: "\<forall>x \<in> cacheOwned s' \<union> heldRefs s' \<union> lent s'. x < nextRef s'"
  proof
    fix x assume "x \<in> cacheOwned s' \<union> heldRefs s' \<union> lent s'"
    then consider "x \<in> cacheOwned s \<union> heldRefs s \<union> lent s"
      | "x \<in> heldRefs s' - heldRefs s" | "x \<in> lent s' - lent s"
      using co by blast
    then show "x < nextRef s'"
    proof cases
      case 1
      then have "x < nextRef s" using old by blast
      then show ?thesis using g(1) by simp
    next
      case 2
      then show ?thesis using h(2) by auto
    next
      case 3
      then show ?thesis using l(2) by auto
    qed
  qed
  have newh: "x \<in> heldRefs s" if "x \<in> heldRefs s'" "x < nextRef s" for x
  proof (rule ccontr)
    assume "x \<notin> heldRefs s"
    then have "x \<in> {nextRef s..<nextRef s'}" using that(1) h(2) by blast
    then show False using that(2) by simp
  qed
  have newl: "x \<in> lent s" if "x \<in> lent s'" "x < nextRef s" for x
  proof (rule ccontr)
    assume "x \<notin> lent s"
    then have "x \<in> {nextRef s..<nextRef s'}" using that(1) l(2) by blast
    then show False using that(2) by simp
  qed
  have d1: "cacheOwned s' \<inter> (heldRefs s' \<union> lent s') = {}"
  proof (rule ccontr)
    assume "cacheOwned s' \<inter> (heldRefs s' \<union> lent s') \<noteq> {}"
    then obtain x where x: "x \<in> cacheOwned s" "x \<in> heldRefs s' \<union> lent s'" using co by blast
    have "x < nextRef s" using old x(1) by blast
    then have "x \<in> heldRefs s \<union> lent s" using x(2) newh newl by blast
    then show False using dj(1) x(1) by blast
  qed
  have d2: "heldRefs s' \<inter> lent s' = {}"
  proof (rule ccontr)
    assume "heldRefs s' \<inter> lent s' \<noteq> {}"
    then obtain x where x: "x \<in> heldRefs s'" "x \<in> lent s'" by blast
    show False
    proof (cases "x < nextRef s")
      case True
      then have "x \<in> heldRefs s" "x \<in> lent s" using x newh newl by blast+
      then show ?thesis using dj(2) by blast
    next
      case False
      then have "x \<notin> heldRefs s" "x \<notin> lent s" using old by blast+
      then show ?thesis using x d by blast
    qed
  qed
  show "separated s'" using b d1 d2 by (simp add: separated_def)
qed


lemma footprint_owned:
  "pokemonDataCacheRef s k = Some c \<Longrightarrow> footprint s c \<subseteq> cacheOwned s"
  by (auto simp: cacheOwned_def ran_def)

lemma move_owned: "moveDataCacheRef s n = Some c \<Longrightarrow> c \<in> cacheOwned s"
  by (auto simp: cacheOwned_def ran_def)

lemma keeps_refl: "keeps s s"
  by (simp add: keeps_def)

lemma keeps_pokemon:
  assumes "keeps s s'" and "pokemonDataCacheRef s k = Some c"
  shows "pokemonDataCacheRef s' k = Some c" and "pokemonAt s' c = pokemonAt s c"
    and "footprint s' c = footprint s c"
proof -
  show "pokemonDataCacheRef s' k = Some c"
    using assms by (auto simp: keeps_def map_le_def dom_def)
  have "\<forall>x \<in> footprint s c. objects s' x = objects s x"
    using assms footprint_owned [OF assms(2)] by (auto simp: keeps_def)
  then show "pokemonAt s' c = pokemonAt s c" "footprint s' c = footprint s c"
    using footprint_cong [of s c s'] by simp_all
qed

lemma keeps_move:
  assumes "keeps s s'" and "moveDataCacheRef s n = Some c"
  shows "moveDataCacheRef s' n = Some c" and "moveAt s' c = moveAt s c"
proof -
  show "moveDataCacheRef s' n = Some c"
    using assms by (auto simp: keeps_def map_le_def dom_def)
  have "objects s' c = objects s c" using assms move_owned [OF assms(2)] by (simp add: keeps_def)
  then show "moveAt s' c = moveAt s c" by (rule moveAt_cong)
qed

lemma keeps_cacheOwned:
  assumes "keeps s s'"
  shows "cacheOwned s \<subseteq> cacheOwned s'"
proof
  fix x assume "x \<in> cacheOwned s"
  then consider n where "moveDataCacheRef s n = Some x"
    | k c where "pokemonDataCacheRef s k = Some c" "x \<in> footprint s c"
    by (auto simp: cacheOwned_def ran_def)
  then show "x \<in> cacheOwned s'"
  proof cases
    case 1
    then show ?thesis using keeps_move(1) [OF assms] move_owned by blast
  next
    case 2
    then have "pokemonDataCacheRef s' k = Some c" "x \<in> footprint s' c"
      using keeps_pokemon [OF assms 2(1)] by simp_all
    then show ?thesis using footprint_owned by blast
  qed
qed

lemma keeps_trans:
  assumes "keeps a b" and "keeps b c"
  shows "keeps a c"
proof -
  have "\<forall>x \<in> cacheOwned a. objects c x = objects a x"
    using assms keeps_cacheOwned [OF assms(1)] by (auto simp: keeps_def)
  then show ?thesis using assms by (auto simp: keeps_def intro: map_le_trans)
qed

text \<open>A move object enters the move cache under a key that had no entry.\<close>

lemma cacheOwned_add_move:
  assumes "moveDataCacheRef s n = None"
    and "\<forall>x \<in> cacheOwned s. objects s' x = objects s x"
    and "moveDataCacheRef s' = (moveDataCacheRef s)(n \<mapsto> r)"
    and "pokemonDataCacheRef s' = pokemonDataCacheRef s"
  shows "cacheOwned s' = insert r (cacheOwned s)"
proof -
  have fp: "footprint s' c = footprint s c" if "c \<in> ran (pokemonDataCacheRef s)" for c
  proof -
    have "footprint s c \<subseteq> cacheOwned s" using that by (auto simp: cacheOwned_def)
    then show ?thesis using footprint_cong(1) [of s c s'] assms(2) by blast
  qed
  have "ran (moveDataCacheRef s') = insert r (ran (moveDataCacheRef s))"
    using assms(1,3) by simp
  then show ?thesis using fp assms(4) by (simp add: cacheOwned_def)
qed

text \<open>A creature object enters the creature cache under a key that had no entry.\<close>

lemma cacheOwned_add_pokemon:
  assumes "pokemonDataCacheRef s k = None"
    and "\<forall>x \<in> cacheOwned s. objects s' x = objects s x"
    and "moveDataCacheRef s' = moveDataCacheRef s"
    and "pokemonDataCacheRef s' = (pokemonDataCacheRef s)(k \<mapsto> r)"
  shows "cacheOwned s' = footprint s' r \<union> cacheOwned s"
proof -
  have fp: "footprint s' c = footprint s c" if "c \<in> ran (pokemonDataCacheRef s)" for c
  proof -
    have "footprint s c \<subseteq> cacheOwned s" using that by (auto simp: cacheOwned_def)
    then show ?thesis using footprint_cong(1) [of s c s'] assms(2) by blast
  qed
  have "ran (pokemonDataCacheRef s') = insert r (ran (pokemonDataCacheRef s))"
    using assms(1,4) by simp
  then show ?thesis using fp assms(3) by (auto simp: cacheOwned_def)
qed


subsection \<open>Every step keeps the separation and the cached objects\<close>

lemma giveMoves_keeps:
  assumes sep: "separated s" and lt: "r < nextRef s" and st: "giveMoves s r w = (s', outs)"
  shows "separated s' \<and> keeps s s'
       \<and> (\<forall>x. Some x \<in> set outs \<longrightarrow> footprint s' x \<subseteq> heldRefs s' \<union> lent s')"
proof (cases "moveAt s r")
  case None
  then show ?thesis using giveMoves_fail [OF None, of w] st sep keeps_refl by simp
next
  case (Some m)
  note p = giveMoves_props [OF Some lt st]
  have le: "lent s' = lent s" using p by blast
  have d: "(heldRefs s' - heldRefs s) \<inter> (lent s' - lent s) = {}" by (simp add: le)
  have l: "lent s \<subseteq> lent s'" "lent s' - lent s \<subseteq> {nextRef s..<nextRef s'}" using p by simp_all
  have ret: "\<forall>x. Some x \<in> set outs \<longrightarrow> footprint s' x \<subseteq> heldRefs s' \<union> lent s'"
  proof (intro allI impI)
    fix x assume "Some x \<in> set outs"
    then have "moveAt s' x = Some m" "x \<in> heldRefs s'" using p by auto
    then show "footprint s' x \<subseteq> heldRefs s' \<union> lent s'"
      by (auto simp: footprint_def moveAt_def split: option.splits cell.splits)
  qed
  show ?thesis
    using separated_grow [OF sep _ _ _ _ _ _ l d] p ret by blast
qed

lemma givePokemon_keeps:
  assumes sep: "separated s" and fp: "footprint s r \<subseteq> {..<nextRef s}"
    and st: "givePokemon s r w = (s', outs)"
  shows "separated s' \<and> keeps s s'
       \<and> (\<forall>x. Some x \<in> set outs \<longrightarrow> footprint s' x \<subseteq> heldRefs s' \<union> lent s')"
proof (cases "pokemonAt s r")
  case None
  then show ?thesis using givePokemon_fail [OF None fp, of w] st sep keeps_refl by simp
next
  case (Some t)
  note p = givePokemon_props [OF Some fp st]
  have he: "heldRefs s' = heldRefs s" using p by blast
  have d: "(heldRefs s' - heldRefs s) \<inter> (lent s' - lent s) = {}" by (simp add: he)
  have h: "heldRefs s \<subseteq> heldRefs s'" "heldRefs s' - heldRefs s \<subseteq> {nextRef s..<nextRef s'}"
    using p by simp_all
  have ret: "\<forall>x. Some x \<in> set outs \<longrightarrow> footprint s' x \<subseteq> heldRefs s' \<union> lent s'"
    using p by auto
  show ?thesis
    using separated_grow [OF sep _ _ _ _ h _ _ d] p ret by blast
qed

lemma step_MoveHit:
  assumes sep: "separated s" and st: "storeStep s (MoveHit n) = (s', outs)"
  shows "separated s' \<and> keeps s s'
       \<and> (\<forall>x. Some x \<in> set outs \<longrightarrow> footprint s' x \<subseteq> heldRefs s' \<union> lent s')"
proof (cases "moveDataCacheRef s n")
  case None
  then show ?thesis using st sep keeps_refl by simp
next
  case (Some r)
  have "r < nextRef s" using cacheOwned_below [OF sep move_owned [OF Some]] .
  then show ?thesis using giveMoves_keeps [OF sep _ , of r 1 s' outs] st Some by simp
qed

lemma step_PokemonHit:
  assumes sep: "separated s" and st: "storeStep s (PokemonHit k) = (s', outs)"
  shows "separated s' \<and> keeps s s'
       \<and> (\<forall>x. Some x \<in> set outs \<longrightarrow> footprint s' x \<subseteq> heldRefs s' \<union> lent s')"
proof (cases "pokemonDataCacheRef s k")
  case None
  then show ?thesis using st sep keeps_refl by simp
next
  case (Some r)
  have "footprint s r \<subseteq> {..<nextRef s}"
    using footprint_owned [OF Some] cacheOwned_below [OF sep] by auto
  then show ?thesis using givePokemon_keeps [OF sep _ , of r 1 s' outs] st Some by simp
qed

lemma step_Mutate:
  assumes sep: "separated s" and st: "storeStep s (Mutate f) = (s', outs)"
  shows "separated s' \<and> keeps s s'
       \<and> (\<forall>x. Some x \<in> set outs \<longrightarrow> footprint s' x \<subseteq> heldRefs s' \<union> lent s')"
proof -
  have s': "s' = s\<lparr>objects := (\<lambda>x. if x \<in> lent s \<union> heldRefs s then f x else objects s x)\<rparr>"
    and no: "outs = []"
    using st by auto
  have agree: "\<forall>x \<in> cacheOwned s. objects s' x = objects s x"
    using sep by (auto simp: s' separated_def)
  have co: "cacheOwned s' = cacheOwned s"
    by (rule cacheOwned_cong [OF agree]) (simp_all add: s')
  have "separated s'" using sep co by (simp add: separated_def s')
  moreover have "keeps s s'" using agree by (simp add: keeps_def s')
  ultimately show ?thesis using no by simp
qed

lemma step_MoveSettle:
  assumes sep: "separated s" and adm: "moveDataCacheRef s n = None"
    and st: "storeStep s (MoveSettle n answer w) = (s', outs)"
  shows "separated s' \<and> keeps s s'
       \<and> (\<forall>x. Some x \<in> set outs \<longrightarrow> footprint s' x \<subseteq> heldRefs s' \<union> lent s')"
proof -
  define r where "r = nextRef s"
  define s1 where "s1 = snd (new s (MoveObject (moveDataOf n answer)))"
  define s2 where "s2 = (if answer = None then s1
                          else s1\<lparr>moveDataCacheRef := (moveDataCacheRef s1)(n \<mapsto> r)\<rparr>)"
  have give: "giveMoves s2 r w = (s', outs)"
    using st by (cases answer) (simp_all add: new_def s2_def s1_def r_def)
  have ob: "objects s2 = (objects s)(r \<mapsto> MoveObject (moveDataOf n answer))"
    and nx: "nextRef s2 = Suc (nextRef s)"
    and same: "pokemonDataCacheRef s2 = pokemonDataCacheRef s" "heldRefs s2 = heldRefs s"
      "lent s2 = lent s"
    by (simp_all add: s2_def s1_def new_def r_def)
  have agree: "\<forall>x \<in> cacheOwned s. objects s2 x = objects s x"
    using cacheOwned_below [OF sep] by (auto simp: ob r_def)
  have old: "\<forall>x \<in> cacheOwned s \<union> heldRefs s \<union> lent s. x < nextRef s"
    and dj: "cacheOwned s \<inter> (heldRefs s \<union> lent s) = {}" "heldRefs s \<inter> lent s = {}"
    using sep by (simp_all add: separated_def)
  have lt: "x < nextRef s" if "x \<in> heldRefs s \<union> lent s" for x using old that by blast
  have fresh: "r \<notin> heldRefs s \<union> lent s" using lt [of r] by (auto simp: r_def)
  have sep2: "separated s2 \<and> keeps s s2"
  proof (cases "answer = None")
    case True
    then have mc: "moveDataCacheRef s2 = moveDataCacheRef s" by (simp add: s2_def s1_def new_def)
    have co: "cacheOwned s2 = cacheOwned s" using cacheOwned_cong [OF agree mc same(1)] .
    have "separated s2" using old dj co same nx by (auto simp: separated_def less_Suc_eq)
    moreover have "keeps s s2" using agree mc same(1) by (simp add: keeps_def)
    ultimately show ?thesis by simp
  next
    case False
    then have mc: "moveDataCacheRef s2 = (moveDataCacheRef s)(n \<mapsto> r)"
      by (cases answer) (simp_all add: s2_def s1_def new_def)
    have co: "cacheOwned s2 = insert r (cacheOwned s)"
      using cacheOwned_add_move [OF adm agree mc same(1)] .
    have "separated s2"
      using old dj co same nx fresh by (auto simp: separated_def less_Suc_eq r_def)
    moreover have "moveDataCacheRef s \<subseteq>\<^sub>m moveDataCacheRef s2"
      using adm mc by (simp add: map_le_def dom_def)
    then have "keeps s s2" using agree same(1) by (simp add: keeps_def)
    ultimately show ?thesis by simp
  qed
  have "r < nextRef s2" by (simp add: nx r_def)
  then have "separated s' \<and> keeps s2 s'
       \<and> (\<forall>x. Some x \<in> set outs \<longrightarrow> footprint s' x \<subseteq> heldRefs s' \<union> lent s')"
    using giveMoves_keeps [OF _ _ give] sep2 by simp
  then show ?thesis using sep2 keeps_trans by blast
qed

lemma step_PokemonSettle:
  assumes sep: "separated s" and adm: "pokemonDataCacheRef s k = None" "set ms \<subseteq> heldRefs s"
    and st: "storeStep s (PokemonSettle k d ms w) = (s', outs)"
  shows "separated s' \<and> keeps s s'
       \<and> (\<forall>x. Some x \<in> set outs \<longrightarrow> footprint s' x \<subseteq> heldRefs s' \<union> lent s')"
proof (cases d)
  case None
  then have s': "s' = s\<lparr>heldRefs := heldRefs s - set ms\<rparr>" and no: "outs = replicate w None"
    using st by simp_all
  have agree: "\<forall>x \<in> cacheOwned s. objects s' x = objects s x" by (simp add: s')
  have co: "cacheOwned s' = cacheOwned s"
    by (rule cacheOwned_cong [OF agree]) (simp_all add: s')
  have "separated s'" using sep co by (auto simp: separated_def s')
  moreover have "keeps s s'" using agree by (simp add: keeps_def s')
  ultimately show ?thesis using no by simp
next
  case (Some t)
  define a where "a = nextRef s"
  define r where "r = Suc (nextRef s)"
  define s3 where "s3 = s\<lparr>objects := (objects s)(a \<mapsto> ArrayObject ms,
                                               r \<mapsto> PokemonObject (t\<lparr>moves := []\<rparr>) a),
                         nextRef := Suc (Suc (nextRef s)),
                         pokemonDataCacheRef := (pokemonDataCacheRef s)(k \<mapsto> r),
                         heldRefs := heldRefs s - set ms\<rparr>"
  have give: "givePokemon s3 r w = (s', outs)"
    using st Some by (simp add: new_def s3_def a_def r_def)
  have old: "\<forall>x \<in> cacheOwned s \<union> heldRefs s \<union> lent s. x < nextRef s"
    and dj: "cacheOwned s \<inter> (heldRefs s \<union> lent s) = {}" "heldRefs s \<inter> lent s = {}"
    using sep by (simp_all add: separated_def)
  have agree: "\<forall>x \<in> cacheOwned s. objects s3 x = objects s x"
  proof
    fix x assume "x \<in> cacheOwned s"
    then have "x < nextRef s" using old by blast
    then show "objects s3 x = objects s x" by (simp add: s3_def a_def r_def)
  qed
  have fp: "footprint s3 r = insert r (insert a (set ms))"
    by (simp add: footprint_def s3_def a_def r_def)
  have co: "cacheOwned s3 = footprint s3 r \<union> cacheOwned s"
    by (rule cacheOwned_add_pokemon [OF adm(1) agree]) (simp_all add: s3_def)
  have msb: "\<forall>x \<in> set ms. x < nextRef s" using adm(2) old by blast
  have f3: "nextRef s3 = Suc (Suc (nextRef s))" "heldRefs s3 = heldRefs s - set ms"
    "lent s3 = lent s"
    by (simp_all add: s3_def)
  have co3: "cacheOwned s3 = insert r (insert a (set ms)) \<union> cacheOwned s"
    using co fp by simp
  have b3: "\<forall>x \<in> cacheOwned s3 \<union> heldRefs s3 \<union> lent s3. x < nextRef s3"
  proof
    fix x assume "x \<in> cacheOwned s3 \<union> heldRefs s3 \<union> lent s3"
    then consider "x = r" | "x = a" | "x \<in> set ms"
      | "x \<in> cacheOwned s \<union> heldRefs s \<union> lent s"
      unfolding co3 f3 by blast
    then show "x < nextRef s3"
    proof cases
      case 1
      then show ?thesis by (simp add: f3 r_def)
    next
      case 2
      then show ?thesis by (simp add: f3 a_def)
    next
      case 3
      then have "x < nextRef s" using msb by blast
      then show ?thesis by (simp add: f3)
    next
      case 4
      then have "x < nextRef s" using old by blast
      then show ?thesis by (simp add: f3)
    qed
  qed
  have lt: "x < nextRef s" if "x \<in> heldRefs s \<union> lent s" for x using old that by blast
  have fresh: "a \<notin> heldRefs s \<union> lent s" "r \<notin> heldRefs s \<union> lent s"
    using lt [of a] lt [of r] by (auto simp: a_def r_def)
  have msl: "set ms \<inter> lent s = {}" using adm(2) dj(2) by blast
  have d3: "cacheOwned s3 \<inter> (heldRefs s3 \<union> lent s3) = {}"
    unfolding co3 f3 using dj fresh msl by blast
  have e3: "heldRefs s3 \<inter> lent s3 = {}" unfolding f3 using dj(2) by blast
  have sep3: "separated s3" using b3 d3 e3 by (simp add: separated_def)
  have "pokemonDataCacheRef s \<subseteq>\<^sub>m pokemonDataCacheRef s3"
    using adm(1) by (simp add: map_le_def dom_def s3_def)
  then have k3: "keeps s s3" using agree by (simp add: keeps_def s3_def)
  have "footprint s3 r \<subseteq> cacheOwned s3" using co by blast
  then have "footprint s3 r \<subseteq> {..<nextRef s3}" using b3 by blast
  then have "separated s' \<and> keeps s3 s'
       \<and> (\<forall>x. Some x \<in> set outs \<longrightarrow> footprint s' x \<subseteq> heldRefs s' \<union> lent s')"
    using givePokemon_keeps [OF sep3 _ give] by simp
  then show ?thesis using k3 keeps_trans by blast
qed

lemma storeStep_keeps:
  assumes "separated s" and "admissible s e" and "storeStep s e = (s', outs)"
  shows "separated s' \<and> keeps s s'
       \<and> (\<forall>x. Some x \<in> set outs \<longrightarrow> footprint s' x \<subseteq> heldRefs s' \<union> lent s')"
proof (cases e)
  case (MoveHit n)
  then show ?thesis using step_MoveHit assms by blast
next
  case (MoveSettle n answer w)
  then show ?thesis using step_MoveSettle [of s n answer w s' outs] assms by simp
next
  case (PokemonHit k)
  then show ?thesis using step_PokemonHit assms by blast
next
  case (PokemonSettle k d ms w)
  then show ?thesis using step_PokemonSettle [of s k ms d w s' outs] assms by simp
next
  case (Mutate f)
  then show ?thesis using step_Mutate assms by blast
qed

lemma runStore_keeps:
  assumes "separated s" and "runStore s evs = Some s'"
  shows "separated s' \<and> keeps s s'"
  using assms
proof (induction evs arbitrary: s)
  case Nil
  then show ?case using keeps_refl by simp
next
  case (Cons e evs)
  have adm: "admissible s e" and rest: "runStore (fst (storeStep s e)) evs = Some s'"
    using Cons.prems(2) by (simp_all split: if_splits)
  have one: "separated (fst (storeStep s e)) \<and> keeps s (fst (storeStep s e))"
    using storeStep_keeps [OF Cons.prems(1) adm, of "fst (storeStep s e)" "snd (storeStep s e)"]
    by simp
  then show ?case using Cons.IH [OF _ rest] keeps_trans by blast
qed



lemma separated_emptyStore: "separated emptyStore"
  by (simp add: separated_def emptyStore_def cacheOwned_def)

text \<open>
  Claim C9 (cache immutability). Take any state \<open>s\<close> that the fetch functions and the
  holders of returned objects can reach from the empty caches, and any further run \<open>evs\<close>
  of fetches and of writes to returned objects, ending in \<open>s'\<close>. A creature cached under
  \<open>k\<close> in \<open>s\<close> with content \<open>t\<close> is returned by a call of \<^verbatim>\<open>getPokemonDetails\<close> in \<open>s'\<close> as a
  new object with the same content \<open>t\<close>, made of objects that the caches do not reach, and
  the cache entry still has content \<open>t\<close>; the same for a move cached under \<open>n\<close> and
  \<^verbatim>\<open>getMoveDetails\<close>. No object that the caches reach in \<open>s\<close> has been written. And whatever
  step comes next, it writes no object that the caches reach, and every object it returns
  is made of objects that the caches do not reach.
\<close>

theorem cache_immutability:
  assumes reach: "runStore emptyStore pre = Some s" and run: "runStore s evs = Some s'"
  shows "(\<forall>k c t. pokemonDataCacheRef s k = Some c \<and> pokemonAt s c = Some t \<longrightarrow>
            (\<exists>r s''. storeStep s' (PokemonHit k) = (s'', [Some r]) \<and> pokemonAt s'' r = Some t
                \<and> footprint s'' r \<inter> cacheOwned s'' = {}
                \<and> pokemonDataCacheRef s'' k = Some c \<and> pokemonAt s'' c = Some t))
       \<and> (\<forall>n c m. moveDataCacheRef s n = Some c \<and> moveAt s c = Some m \<longrightarrow>
            (\<exists>r s''. storeStep s' (MoveHit n) = (s'', [Some r]) \<and> moveAt s'' r = Some m
                \<and> r \<notin> cacheOwned s''
                \<and> moveDataCacheRef s'' n = Some c \<and> moveAt s'' c = Some m))
       \<and> (\<forall>x \<in> cacheOwned s. objects s' x = objects s x)
       \<and> (\<forall>e s'' outs. admissible s' e \<and> storeStep s' e = (s'', outs) \<longrightarrow>
            (\<forall>x \<in> cacheOwned s'. objects s'' x = objects s' x)
            \<and> (\<forall>r. Some r \<in> set outs \<longrightarrow> footprint s'' r \<inter> cacheOwned s'' = {}))"
proof -
  have sep: "separated s" using runStore_keeps [OF separated_emptyStore reach] by simp
  have sep': "separated s'" and keep: "keeps s s'" using runStore_keeps [OF sep run] by simp_all
  have step: "separated s'' \<and> keeps s' s''
       \<and> (\<forall>x. Some x \<in> set outs \<longrightarrow> footprint s'' x \<subseteq> heldRefs s'' \<union> lent s'')"
    if "admissible s' e" "storeStep s' e = (s'', outs)" for e s'' outs
    using storeStep_keeps [OF sep' that] .
  have indep: "footprint s'' x \<inter> cacheOwned s'' = {}"
    if "admissible s' e" "storeStep s' e = (s'', outs)" "Some x \<in> set outs" for e s'' outs x
  proof -
    have "footprint s'' x \<subseteq> heldRefs s'' \<union> lent s''" "separated s''"
      using step [OF that(1,2)] that(3) by simp_all
    then show ?thesis by (auto simp: separated_def)
  qed
  have p: "\<exists>r s''. storeStep s' (PokemonHit k) = (s'', [Some r]) \<and> pokemonAt s'' r = Some t
                \<and> footprint s'' r \<inter> cacheOwned s'' = {}
                \<and> pokemonDataCacheRef s'' k = Some c \<and> pokemonAt s'' c = Some t"
    if c: "pokemonDataCacheRef s k = Some c" and t: "pokemonAt s c = Some t" for k c t
  proof -
    have c': "pokemonDataCacheRef s' k = Some c" and t': "pokemonAt s' c = Some t"
      using keeps_pokemon [OF keep c] t by simp_all
    have fp: "footprint s' c \<subseteq> {..<nextRef s'}"
      using footprint_owned [OF c'] cacheOwned_below [OF sep'] by auto
    obtain s'' outs where st: "givePokemon s' c 1 = (s'', outs)" by (cases "givePokemon s' c 1")
    note g = givePokemon_props [OF t' fp st]
    obtain v where outs: "outs = [v]" using g by (cases outs) auto
    then obtain r where r: "v = Some r" "pokemonAt s'' r = Some t" using g by auto
    have full: "storeStep s' (PokemonHit k) = (s'', [Some r])" using st c' outs r(1) by simp
    have adm: "admissible s' (PokemonHit k)" by simp
    have "keeps s' s''" using step [OF adm full] by simp
    then have "pokemonDataCacheRef s'' k = Some c" "pokemonAt s'' c = Some t"
      using keeps_pokemon [OF _ c'] t' by simp_all
    moreover have "footprint s'' r \<inter> cacheOwned s'' = {}" using indep [OF adm full] by simp
    ultimately show ?thesis using full r(2) by blast
  qed
  have m: "\<exists>r s''. storeStep s' (MoveHit n) = (s'', [Some r]) \<and> moveAt s'' r = Some m
                \<and> r \<notin> cacheOwned s''
                \<and> moveDataCacheRef s'' n = Some c \<and> moveAt s'' c = Some m"
    if c: "moveDataCacheRef s n = Some c" and t: "moveAt s c = Some m" for n c m
  proof -
    have c': "moveDataCacheRef s' n = Some c" and t': "moveAt s' c = Some m"
      using keeps_move [OF keep c] t by simp_all
    have lt: "c < nextRef s'" using cacheOwned_below [OF sep' move_owned [OF c']] .
    obtain s'' outs where st: "giveMoves s' c 1 = (s'', outs)" by (cases "giveMoves s' c 1")
    note g = giveMoves_props [OF t' lt st]
    obtain v where outs: "outs = [v]" using g by (cases outs) auto
    then obtain r where r: "v = Some r" "moveAt s'' r = Some m" using g by auto
    have full: "storeStep s' (MoveHit n) = (s'', [Some r])" using st c' outs r(1) by simp
    have adm: "admissible s' (MoveHit n)" by simp
    have "keeps s' s''" using step [OF adm full] by simp
    then have "moveDataCacheRef s'' n = Some c" "moveAt s'' c = Some m"
      using keeps_move [OF _ c'] t' by simp_all
    moreover have "r \<notin> cacheOwned s''" using indep [OF adm full] footprint_self by fastforce
    ultimately show ?thesis using full r(2) by blast
  qed
  have frame: "\<forall>x \<in> cacheOwned s. objects s' x = objects s x" using keep by (simp add: keeps_def)
  have later: "\<forall>x \<in> cacheOwned s'. objects s'' x = objects s' x"
    if "admissible s' e" "storeStep s' e = (s'', outs)" for e s'' outs
    using step [OF that] by (simp add: keeps_def)
  show ?thesis using p m frame later indep by blast
qed


theorem cache_immutability_witness:
  "runStore emptyStore exFetches = Some exCached
   \<and> runStore exCached exWrites = Some exWritten
   \<and> pokemonDataCacheRef exCached ''25'' = Some 3
   \<and> pokemonAt exCached 3 = Some (pikachu\<lparr>moves := [growl]\<rparr>)
   \<and> pokemonAt exCached 6 = Some (pikachu\<lparr>moves := [growl]\<rparr>)
   \<and> pokemonAt exWritten 6 = None
   \<and> (\<exists>r s''. storeStep exWritten (PokemonHit ''25'') = (s'', [Some r])
         \<and> pokemonAt s'' r = Some (pikachu\<lparr>moves := [growl]\<rparr>)
         \<and> footprint s'' r \<inter> cacheOwned s'' = {})"
proof -
  have reach: "runStore emptyStore exFetches = Some exCached"
    by (simp add: exCached_def exFetches_def emptyStore_def new_def cloneMove_def clonePokemon_def
        Let_def numeral_2_eq_2 numeral_3_eq_3)
  have run: "runStore exCached exWrites = Some exWritten"
    by (simp add: exWritten_def exWrites_def)
  have c: "pokemonDataCacheRef exCached ''25'' = Some 3"
    by (simp add: exCached_def exFetches_def emptyStore_def new_def cloneMove_def clonePokemon_def
        Let_def numeral_2_eq_2 numeral_3_eq_3)
  have n: "moveDataOf ''growl'' (Some PowerNull) = growl"
    by code_simp
  have t: "pokemonAt exCached 3 = Some (pikachu\<lparr>moves := [growl]\<rparr>)"
    by (simp add: exCached_def exFetches_def emptyStore_def new_def cloneMove_def clonePokemon_def
        Let_def pokemonAt_def moveAt_def n numeral_2_eq_2 numeral_3_eq_3)
  have given: "pokemonAt exCached 6 = Some (pikachu\<lparr>moves := [growl]\<rparr>)"
    by (simp add: exCached_def exFetches_def emptyStore_def new_def cloneMove_def clonePokemon_def
        Let_def pokemonAt_def moveAt_def n footprint_def numeral_2_eq_2 numeral_3_eq_3)
  have gone: "pokemonAt exWritten 6 = None"
    by (simp add: exWritten_def exWrites_def exCached_def exFetches_def emptyStore_def new_def
        cloneMove_def clonePokemon_def Let_def pokemonAt_def moveAt_def footprint_def scribble_def
        numeral_2_eq_2 numeral_3_eq_3)
  have "\<exists>r s''. storeStep exWritten (PokemonHit ''25'') = (s'', [Some r])
         \<and> pokemonAt s'' r = Some (pikachu\<lparr>moves := [growl]\<rparr>)
         \<and> footprint s'' r \<inter> cacheOwned s'' = {}"
    using cache_immutability [OF reach run] c t by blast
  then show ?thesis using reach run c t given gone by blast
qed


end
